theory Spec2Isabelle
  imports Complex_Main
begin

section \<open>The transformer generator model: assembly of encoder, decoder and embedding\<close>

text \<open>
  The source is \<^verbatim>\<open>parlai/agents/transformer/modules/generator.py\<close>: the class
  \<^verbatim>\<open>TransformerGeneratorModel\<close> with its constructor, the two builder class methods,
  the two reordering methods used by beam search and the output projection.

  The file is a composition layer.  What it calls but does not define is taken as a
  parameter of the functions below: the class call of a component class, the
  superclass constructor, \<^verbatim>\<open>create_embeddings\<close>, \<^verbatim>\<open>neginf\<close>, the inner product
  that \<^verbatim>\<open>F.linear\<close> computes in floating point, the \<^verbatim>\<open>layers\<close> attribute of a decoder
  and the \<^verbatim>\<open>reorder_incremental_state\<close> method of a decoder layer.  The tensor
  operations the file calls (\<^verbatim>\<open>torch.index_select\<close>, \<^verbatim>\<open>F.linear\<close>, the indexed
  assignment) are modelled from their documented meaning on a tensor given by its
  shape and its elements in row-major order.
\<close>

subsection \<open>Errors\<close>

text \<open>
  Every exception is a value.  \<open>KeyError\<close> is Python's failed dictionary lookup,
  \<open>TensorError\<close> stands for any exception the tensor library raises (a shape, device or
  dtype mismatch, an index out of range, an integer that does not fit the element
  type), \<open>Raised\<close> for an exception raised inside a collaborator that is a parameter
  here, and \<open>BadRef\<close> for a reference to no object, which no Python program can hold.
\<close>

datatype key = KStr string | KInt int

datatype error = KeyError key | TensorError | Raised string | BadRef

subsection \<open>Tensors and the store\<close>

datatype device = CPU | CUDA nat

datatype dtype = Float16 | BFloat16 | Float32 | Float64 | Int64 | BoolT

record 'a tensor =
  shape :: "nat list"
  dtype :: dtype
  device :: device
  elems :: "'a list"

text \<open>The elements fill the shape: the invariant of every tensor.\<close>

definition wf_tensor :: "'a tensor \<Rightarrow> bool" where
  "wf_tensor t \<longleftrightarrow> length (elems t) = prod_list (shape t)"

text \<open>Row-major position of a multi-index, and reading one element.\<close>

fun offset :: "nat \<Rightarrow> nat list \<Rightarrow> nat list \<Rightarrow> nat" where
  "offset acc (n # ns) (i # is) = offset (acc * n + i) ns is"
| "offset acc _ _ = acc"

fun valid_index :: "nat list \<Rightarrow> nat list \<Rightarrow> bool" where
  "valid_index [] [] = True"
| "valid_index (n # ns) (i # is) = (i < n \<and> valid_index ns is)"
| "valid_index _ _ = False"

definition item :: "'a tensor \<Rightarrow> nat list \<Rightarrow> 'a option" where
  "item t ix =
     (if valid_index (shape t) ix \<and> offset 0 (shape t) ix < length (elems t)
      then Some (elems t ! offset 0 (shape t) ix) else None)"

text \<open>\<^verbatim>\<open>t[i]\<close>: the \<open>i\<close>-th slice along dimension 0.\<close>

definition select0 :: "'a tensor \<Rightarrow> nat \<Rightarrow> 'a tensor option" where
  "select0 t i =
     (case shape t of
        [] \<Rightarrow> None
      | n # rest \<Rightarrow>
          if i < n
          then Some (t\<lparr>shape := rest,
                      elems := take (prod_list rest) (drop (i * prod_list rest) (elems t))\<rparr>)
          else None)"

text \<open>
  A tensor is an object: the store maps an address to the tensor that lives there, a
  new tensor gets the next address, and an assignment into a tensor changes the cell.
\<close>

type_synonym addr = nat

type_synonym 'a store = "'a tensor list"

definition lookup :: "'a store \<Rightarrow> addr \<Rightarrow> 'a tensor option" where
  "lookup st a = (if a < length st then Some (st ! a) else None)"

definition alloc :: "'a store \<Rightarrow> 'a tensor \<Rightarrow> addr \<times> 'a store" where
  "alloc st t = (length st, st @ [t])"

definition wf_store :: "'a store \<Rightarrow> bool" where
  "wf_store st \<longleftrightarrow> list_all wf_tensor st"

subsection \<open>Index tensors and \<^verbatim>\<open>torch.index_select\<close>\<close>

text \<open>
  An index tensor is a one-dimensional tensor of 64-bit integers.  The argument
  \<^verbatim>\<open>indices\<close> is either such a tensor or a plain list of Python integers;
  \<^verbatim>\<open>torch.is_tensor\<close> tells the two apart, here the constructor does.
\<close>

record index_tensor =
  ix_device :: device
  ix_values :: "int list"

datatype indices = Tensor index_tensor | PyList "int list"

text \<open>The sequence of integers an \<^verbatim>\<open>indices\<close> argument stands for.\<close>

fun index_values :: "indices \<Rightarrow> int list" where
  "index_values (Tensor ix) = ix_values ix"
| "index_values (PyList xs) = xs"

text \<open>\<^verbatim>\<open>torch.LongTensor(xs)\<close>: a tensor on the CPU; an integer beyond 64 bits raises.\<close>

definition fits_int64 :: "int \<Rightarrow> bool" where
  "fits_int64 i \<longleftrightarrow> - (2 ^ 63) \<le> i \<and> i < 2 ^ 63"

definition LongTensor :: "int list \<Rightarrow> error + index_tensor" where
  "LongTensor xs =
     (if list_all fits_int64 xs
      then Inr \<lparr>ix_device = CPU, ix_values = xs\<rparr>
      else Inl TensorError)"

definition to_device :: "index_tensor \<Rightarrow> device \<Rightarrow> index_tensor" where
  "to_device ix d = ix\<lparr>ix_device := d\<rparr>"

text \<open>
  \<^verbatim>\<open>torch.index_select(t, dim, index)\<close>: a new tensor whose dimension \<open>axis\<close> has one
  entry for each index, the other dimensions as in \<open>t\<close>.  The index lives on the
  device of \<open>t\<close> and every entry is a position of that dimension.  On a tensor without
  dimensions only the single index 0 is accepted and the result is a copy.
\<close>

definition index_select :: "'a tensor \<Rightarrow> nat \<Rightarrow> index_tensor \<Rightarrow> error + 'a tensor" where
  "index_select t axis ix =
     (if ix_device ix \<noteq> device t then Inl TensorError
      else if shape t = [] then
        (if axis = 0 \<and> ix_values ix = [0] then Inr t else Inl TensorError)
      else if length (shape t) \<le> axis then Inl TensorError
      else
        let n = shape t ! axis;
            outer = prod_list (take axis (shape t));
            inner = prod_list (drop (Suc axis) (shape t))
        in if list_all (\<lambda>i. 0 \<le> i \<and> i < int n) (ix_values ix)
           then Inr (t\<lparr>shape := (shape t)[axis := length (ix_values ix)],
                       elems := concat (map (\<lambda>k. concat (map (\<lambda>i.
                                   take inner (drop ((k * n + nat i) * inner) (elems t)))
                                   (ix_values ix))) [0..<outer])\<rparr>)
           else Inl TensorError)"

subsection \<open>\<^verbatim>\<open>F.linear\<close> and the indexed assignment\<close>

text \<open>The \<open>n\<close> consecutive rows of width \<open>k\<close> of a flat list.\<close>

definition chunk :: "nat \<Rightarrow> nat \<Rightarrow> 'a list \<Rightarrow> 'a list list" where
  "chunk n k xs = map (\<lambda>i. take k (drop (i * k) xs)) [0..<n]"

text \<open>
  \<^verbatim>\<open>F.linear(x, w)\<close> without bias: \<open>x\<close> has shape \<open>(*, h)\<close>, the weight has shape
  \<open>(v, h)\<close> or \<open>(h)\<close>, the result has shape \<open>(*, v)\<close> or \<open>(*)\<close>, and each
  entry is the inner product \<open>dot\<close> of a row of \<open>x\<close> with a row of \<open>w\<close>.  Both tensors
  have one dtype and one device.
\<close>

definition linear :: "('a list \<Rightarrow> 'a list \<Rightarrow> 'a) \<Rightarrow> 'a tensor \<Rightarrow> 'a tensor \<Rightarrow> error + 'a tensor"
  where
  "linear dot x w =
     (if shape x = [] \<or> dtype x \<noteq> dtype w \<or> device x \<noteq> device w then Inl TensorError
      else
        let lead = butlast (shape x); rows = chunk (prod_list lead) (last (shape x)) (elems x)
        in case shape w of
             [h] \<Rightarrow>
               if last (shape x) = h
               then Inr (x\<lparr>shape := lead, elems := map (\<lambda>r. dot r (elems w)) rows\<rparr>)
               else Inl TensorError
           | [v, h] \<Rightarrow>
               if last (shape x) = h
               then Inr (x\<lparr>shape := lead @ [v],
                           elems := concat (map (\<lambda>r. map (dot r) (chunk v h (elems w))) rows)\<rparr>)
               else Inl TensorError
           | _ \<Rightarrow> Inl TensorError)"

text \<open>
  \<^verbatim>\<open>t[:, :, s] = c\<close>: the tensor has at least three dimensions, \<open>s\<close> is a position of
  the third one (a negative \<open>s\<close> counts from its end), and every element whose third
  index is \<open>s\<close> becomes \<open>c\<close>.
\<close>

definition wrap_index :: "int \<Rightarrow> nat \<Rightarrow> nat" where
  "wrap_index s k = nat (if s < 0 then s + int k else s)"

definition setitem3 :: "'a tensor \<Rightarrow> int \<Rightarrow> 'a \<Rightarrow> error + 'a tensor" where
  "setitem3 t s c =
     (case shape t of
        b # n # k # rest \<Rightarrow>
          if - int k \<le> s \<and> s < int k
          then let j = wrap_index s k; z = prod_list rest
               in Inr (t\<lparr>elems := map (\<lambda>p. if (p div z) mod k = j then c else elems t ! p)
                                        [0..<length (elems t)]\<rparr>)
          else Inl TensorError
      | _ \<Rightarrow> Inl TensorError)"

subsection \<open>Dictionary, options, component classes and their specifications\<close>

text \<open>
  Of the dictionary agent the file reads the three special tokens, the lookup
  \<^verbatim>\<open>dictionary[token]\<close> and \<^verbatim>\<open>len(dictionary)\<close>.
\<close>

record DictionaryAgent =
  null_token :: string
  start_token :: string
  end_token :: string
  getitem :: "string \<Rightarrow> int"
  len :: nat

text \<open>
  A component class is a name; \<^verbatim>\<open>K.Manifest()\<close>, the default manifest of the class
  \<open>K\<close>, is \<open>Default_Manifest K\<close>.  A \<^verbatim>\<open>ComponentSpec\<close> pairs a class with a manifest.
\<close>

datatype klass = TransformerEncoder | TransformerDecoder | Class string

datatype 'm manifest = Default_Manifest klass | Custom_Manifest 'm

record 'm ComponentSpec =
  klass :: klass
  manifest :: "'m manifest"

definition ENCODER_DEFAULT_SPEC :: "'m ComponentSpec" where
  "ENCODER_DEFAULT_SPEC =
     \<lparr>klass = TransformerEncoder, manifest = Default_Manifest TransformerEncoder\<rparr>"

definition DECODER_DEFAULT_SPEC :: "'m ComponentSpec" where
  "DECODER_DEFAULT_SPEC =
     \<lparr>klass = TransformerDecoder, manifest = Default_Manifest TransformerDecoder\<rparr>"

record 'm Manifest =
  encoder :: "'m ComponentSpec"
  decoder :: "'m ComponentSpec"

text \<open>\<^verbatim>\<open>Manifest()\<close>: the dataclass with its two default fields.\<close>

definition Manifest_default :: "'m Manifest" where
  "Manifest_default = \<lparr>encoder = ENCODER_DEFAULT_SPEC, decoder = DECODER_DEFAULT_SPEC\<rparr>"

text \<open>
  The values that travel as keyword arguments of a class call; \<open>PyRef\<close> is a
  reference to the embedding module, which is identified with the store cell of its
  weight.  A class call \<^verbatim>\<open>K(**kwargs)\<close> is the parameter
  \<open>call :: klass \<Rightarrow> kwargs \<Rightarrow> error + 'c\<close> of the builders.
\<close>

datatype ('v, 'm) pyval =
    PyNone
  | PyInt int
  | PyStr string
  | PyRef addr
  | PyOpt "string \<Rightarrow> 'v option"
  | PyManifest "'m manifest"

type_synonym ('v, 'm) kwargs = "(string \<times> ('v, 'm) pyval) list"

subsection \<open>The model object and its constructor\<close>

text \<open>
  An argument with a default value is an option: \<open>None\<close> is the argument left out.
\<close>

definition build_encoder ::
  "(klass \<Rightarrow> ('v, 'm) kwargs \<Rightarrow> error + 'c) \<Rightarrow> (string \<Rightarrow> 'v option) \<Rightarrow> DictionaryAgent \<Rightarrow>
   ('v, 'm) pyval option \<Rightarrow> ('v, 'm) pyval option \<Rightarrow> ('v, 'm) pyval option \<Rightarrow>
   'm ComponentSpec option \<Rightarrow> error + 'c" where
  "build_encoder call options dictionary embedding padding_idx reduction_type spec =
     (let embedding' = (case embedding of None \<Rightarrow> PyNone | Some e \<Rightarrow> e);
          padding_idx' = (case padding_idx of None \<Rightarrow> PyNone | Some p \<Rightarrow> p);
          reduction_type' = (case reduction_type of None \<Rightarrow> PyStr ''mean'' | Some r \<Rightarrow> r);
          spec' = (case spec of None \<Rightarrow> ENCODER_DEFAULT_SPEC | Some s \<Rightarrow> s)
      in call (klass spec')
           [(''opt'', PyOpt options),
            (''embedding'', embedding'),
            (''vocabulary_size'', PyInt (int (len dictionary))),
            (''padding_idx'', padding_idx'),
            (''reduction_type'', reduction_type'),
            (''manifest'', PyManifest (manifest spec'))])"

definition build_decoder ::
  "(klass \<Rightarrow> ('v, 'm) kwargs \<Rightarrow> error + 'c) \<Rightarrow> (string \<Rightarrow> 'v option) \<Rightarrow>
   ('v, 'm) pyval option \<Rightarrow> 'm ComponentSpec option \<Rightarrow> error + 'c" where
  "build_decoder call options embedding spec =
     (let embedding' = (case embedding of None \<Rightarrow> PyNone | Some e \<Rightarrow> e);
          spec' = (case spec of None \<Rightarrow> ENCODER_DEFAULT_SPEC | Some s \<Rightarrow> s)
      in call (klass spec')
           [(''opt'', PyOpt options),
            (''embedding'', embedding'),
            (''manifest'', PyManifest (manifest spec'))])"

text \<open>
  The object: \<open>base\<close> is what the superclass constructor built from the three
  indices, \<open>embeddings\<close> the address of the embedding weight.
\<close>

record ('b, 'v, 'c) TransformerGeneratorModel =
  base :: 'b
  pad_idx :: int
  start_idx :: int
  end_idx :: int
  opt :: "string \<Rightarrow> 'v option"
  embeddings :: addr
  self_encoder :: 'c
  self_decoder :: 'c

text \<open>
  \<^verbatim>\<open>__init__(self, opt, dictionary, manifest=None)\<close>.  \<open>super_init\<close> is the superclass
  constructor and \<open>create_embeddings\<close> gives the initial weight of the new embedding
  module, which the constructor puts into the store.
\<close>

definition TransformerGeneratorModel_init ::
  "(int \<Rightarrow> int \<Rightarrow> int \<Rightarrow> 'b) \<Rightarrow> (DictionaryAgent \<Rightarrow> 'v \<Rightarrow> int \<Rightarrow> 'a tensor) \<Rightarrow>
   (klass \<Rightarrow> ('v, 'm) kwargs \<Rightarrow> error + 'c) \<Rightarrow>
   (string \<Rightarrow> 'v option) \<Rightarrow> DictionaryAgent \<Rightarrow> 'm Manifest option \<Rightarrow> 'a store \<Rightarrow>
   error + ('b, 'v, 'c) TransformerGeneratorModel \<times> 'a store" where
  "TransformerGeneratorModel_init super_init create_embeddings call options dictionary mf st =
     (let pad = getitem dictionary (null_token dictionary);
          start = getitem dictionary (start_token dictionary);
          end' = getitem dictionary (end_token dictionary);
          b = super_init pad start end';
          mf' = (case mf of None \<Rightarrow> Manifest_default | Some m \<Rightarrow> m)
      in case options ''embedding_size'' of
           None \<Rightarrow> Inl (KeyError (KStr ''embedding_size''))
         | Some sz \<Rightarrow>
             let (emb, st') = alloc st (create_embeddings dictionary sz pad)
             in (case build_encoder call options dictionary (Some (PyRef emb))
                        (Some (PyInt pad)) (Some PyNone) (Some (encoder mf')) of
                   Inl e \<Rightarrow> Inl e
                 | Inr enc \<Rightarrow>
                     (case build_decoder call options (Some (PyRef emb)) (Some (decoder mf')) of
                        Inl e \<Rightarrow> Inl e
                      | Inr dec \<Rightarrow>
                          Inr (\<lparr>base = b, pad_idx = pad, start_idx = start, end_idx = end',
                                opt = options, embeddings = emb,
                                self_encoder = enc, self_decoder = dec\<rparr>, st'))))"

subsection \<open>Reordering for beam search\<close>

text \<open>
  \<^verbatim>\<open>reorder_encoder_states(self, encoder_states, indices)\<close>: the pair holds the
  addresses of the two tensors; the result holds the addresses of two new ones.
\<close>

definition reorder_encoder_states ::
  "('b, 'v, 'c) TransformerGeneratorModel \<Rightarrow> addr \<times> addr \<Rightarrow> indices \<Rightarrow> 'a store \<Rightarrow>
   error + (addr \<times> addr) \<times> 'a store" where
  "reorder_encoder_states self encoder_states ixs st =
     (case encoder_states of (enc, msk) \<Rightarrow>
      (case (lookup st enc, lookup st msk) of
         (Some e, Some m) \<Rightarrow>
           (case (case ixs of
                    Tensor ix \<Rightarrow> Inr ix
                  | PyList xs \<Rightarrow>
                      (case LongTensor xs of
                         Inl err \<Rightarrow> Inl err
                       | Inr ix \<Rightarrow> Inr (to_device ix (device e)))) of
              Inl err \<Rightarrow> Inl err
            | Inr ix \<Rightarrow>
                (case index_select e 0 ix of
                   Inl err \<Rightarrow> Inl err
                 | Inr e' \<Rightarrow>
                     let (enc', st1) = alloc st e'
                     in (case index_select m 0 ix of
                           Inl err \<Rightarrow> Inl err
                         | Inr m' \<Rightarrow>
                             let (msk', st2) = alloc st1 m'
                             in Inr ((enc', msk'), st2))))
       | _ \<Rightarrow> Inl BadRef))"

text \<open>
  \<^verbatim>\<open>enumerate\<close>, and the dictionary comprehension of
  \<^verbatim>\<open>reorder_decoder_incremental_state\<close>: for each layer in turn the entry of the
  incremental state is looked up, the layer's own method is called (the parameter
  \<open>layer_reorder\<close>) and the result is stored under the layer's index.
\<close>

fun enumerate_from :: "int \<Rightarrow> 'l list \<Rightarrow> (int \<times> 'l) list" where
  "enumerate_from n [] = []"
| "enumerate_from n (x # xs) = (n, x) # enumerate_from (n + 1) xs"

fun dict_comprehension ::
  "('l \<Rightarrow> 's \<Rightarrow> 'i \<Rightarrow> error + 's) \<Rightarrow> (int \<Rightarrow> 's option) \<Rightarrow> 'i \<Rightarrow> (int \<times> 'l) list \<Rightarrow>
   (int \<Rightarrow> 's option) \<Rightarrow> error + (int \<Rightarrow> 's option)" where
  "dict_comprehension layer_reorder incremental_state inds [] acc = Inr acc"
| "dict_comprehension layer_reorder incremental_state inds ((idx, layer) # rest) acc =
     (case incremental_state idx of
        None \<Rightarrow> Inl (KeyError (KInt idx))
      | Some s \<Rightarrow>
          (case layer_reorder layer s inds of
             Inl e \<Rightarrow> Inl e
           | Inr v \<Rightarrow>
               dict_comprehension layer_reorder incremental_state inds rest (acc(idx \<mapsto> v))))"

definition reorder_decoder_incremental_state ::
  "('c \<Rightarrow> 'l list) \<Rightarrow> ('l \<Rightarrow> 's \<Rightarrow> 'i \<Rightarrow> error + 's) \<Rightarrow>
   ('b, 'v, 'c) TransformerGeneratorModel \<Rightarrow> (int \<Rightarrow> 's option) \<Rightarrow> 'i \<Rightarrow>
   error + (int \<Rightarrow> 's option)" where
  "reorder_decoder_incremental_state layers layer_reorder self incremental_state inds =
     dict_comprehension layer_reorder incremental_state inds
       (enumerate_from 0 (layers (self_decoder self))) Map.empty"

subsection \<open>The output projection\<close>

text \<open>
  \<^verbatim>\<open>output(self, tensor)\<close>, here \<open>output_logits\<close> since \<open>output\<close> is a keyword: the
  projection is a new tensor, and the assignment of \<^verbatim>\<open>neginf(output.dtype)\<close> changes
  that new cell.
\<close>

definition output_logits ::
  "(dtype \<Rightarrow> 'a) \<Rightarrow> ('a list \<Rightarrow> 'a list \<Rightarrow> 'a) \<Rightarrow> ('b, 'v, 'c) TransformerGeneratorModel \<Rightarrow>
   addr \<Rightarrow> 'a store \<Rightarrow> error + addr \<times> 'a store" where
  "output_logits neginf dot self tensor st =
     (case (lookup st tensor, lookup st (embeddings self)) of
        (Some x, Some w) \<Rightarrow>
          (case linear dot x w of
             Inl err \<Rightarrow> Inl err
           | Inr y \<Rightarrow>
               let (out, st1) = alloc st y
               in (case lookup st1 out of
                     None \<Rightarrow> Inl BadRef
                   | Some cur \<Rightarrow>
                       (case setitem3 cur (start_idx self) (neginf (dtype cur)) of
                          Inl err \<Rightarrow> Inl err
                        | Inr new \<Rightarrow> Inr (out, st1[out := new]))))
      | _ \<Rightarrow> Inl BadRef)"

subsection \<open>Logits, \<^verbatim>\<open>neginf\<close> and the softmax\<close>

text \<open>
  A logit is a real number or negative infinity; rounding is not modelled.
\<close>

datatype logit = NegInf | Val real

text \<open>
  Modelled from the spec: \<^verbatim>\<open>neginf\<close> of \<^verbatim>\<open>parlai.utils.torch\<close> is imported by the
  source and is not among the sources.  The spec has the masking force a zero
  probability of generation for the start token: \<^verbatim>\<open>neginf\<close> returns, for every dtype,
  the logit whose exponential is zero, negative infinity.
\<close>

definition parlai_neginf :: "dtype \<Rightarrow> logit" where
  "parlai_neginf dt = NegInf"

text \<open>
  The softmax of a vector of logits, in exact arithmetic: each exponential divided by
  the sum of all of them, the exponential of negative infinity being zero.
\<close>

fun expl :: "logit \<Rightarrow> real" where
  "expl NegInf = 0"
| "expl (Val r) = exp r"

definition softmax :: "logit list \<Rightarrow> real list" where
  "softmax zs = map (\<lambda>z. expl z / sum_list (map expl zs)) zs"

text \<open>\<^verbatim>\<open>t[i, j, :]\<close>: the vector along the last of three dimensions.\<close>

definition vector_at :: "'a tensor \<Rightarrow> nat \<Rightarrow> nat \<Rightarrow> 'a list" where
  "vector_at t i j =
     (case shape t of
        [b, n, v] \<Rightarrow> take v (drop ((i * n + j) * v) (elems t))
      | _ \<Rightarrow> [])"

subsection \<open>Example objects\<close>

text \<open>
  A dictionary of five tokens, options with an embedding size of 2, an embedding
  whose padding row is zero, and a class call that returns the class together with
  the keyword arguments it received; then a store with the embedding weight, an
  encoder state, its mask and a decoder output of one batch entry and two time steps,
  a model over that store, and integer stand-ins for \<^verbatim>\<open>neginf\<close> and the inner product.
\<close>

definition example_dictionary :: DictionaryAgent where
  "example_dictionary =
     \<lparr>null_token = ''__null__'', start_token = ''__start__'', end_token = ''__end__'',
      getitem = (\<lambda>t. if t = ''__null__'' then 0 else if t = ''__start__'' then 1
                     else if t = ''__end__'' then 2 else 3),
      len = 5\<rparr>"

definition example_options :: "string \<Rightarrow> nat option" where
  "example_options = [''embedding_size'' \<mapsto> 2]"

definition example_create_embeddings :: "DictionaryAgent \<Rightarrow> nat \<Rightarrow> int \<Rightarrow> int tensor" where
  "example_create_embeddings d sz pad =
     \<lparr>shape = [len d, sz], dtype = Float32, device = CPU,
      elems = map (\<lambda>p. if int (p div sz) = pad then 0 else int p) [0..<len d * sz]\<rparr>"

definition example_call :: "klass \<Rightarrow> (nat, unit) kwargs \<Rightarrow> error + klass \<times> (nat, unit) kwargs" where
  "example_call k kw = Inr (k, kw)"

definition example_weight :: "int tensor" where
  "example_weight = example_create_embeddings example_dictionary 2 0"

definition example_enc :: "int tensor" where
  "example_enc = \<lparr>shape = [3, 2], dtype = Float32, device = CPU, elems = [1, 2, 3, 4, 5, 6]\<rparr>"

definition example_mask :: "int tensor" where
  "example_mask = \<lparr>shape = [3, 2], dtype = BoolT, device = CPU, elems = [1, 1, 1, 0, 0, 0]\<rparr>"

definition example_hidden :: "int tensor" where
  "example_hidden = \<lparr>shape = [1, 2, 2], dtype = Float32, device = CPU, elems = [1, 2, 3, 4]\<rparr>"

definition example_store :: "int store" where
  "example_store = [example_weight, example_enc, example_mask, example_hidden]"

definition example_model ::
  "(int \<times> int \<times> int, nat, klass \<times> (nat, unit) kwargs) TransformerGeneratorModel" where
  "example_model =
     \<lparr>base = (0, 1, 2), pad_idx = 0, start_idx = 1, end_idx = 2, opt = example_options,
      embeddings = 0, self_encoder = (TransformerEncoder, []),
      self_decoder = (TransformerDecoder, [])\<rparr>"

definition example_neginf :: "dtype \<Rightarrow> int" where
  "example_neginf dt = - 1000"

definition example_dot :: "int list \<Rightarrow> int list \<Rightarrow> int" where
  "example_dot xs ys = sum_list (map2 (*) xs ys)"

text \<open>The same store with real logits, and an inner product over them.\<close>

definition to_logits :: "int tensor \<Rightarrow> logit tensor" where
  "to_logits t =
     \<lparr>shape = shape t, dtype = dtype t, device = device t,
      elems = map (\<lambda>k. Val (real_of_int k)) (elems t)\<rparr>"

definition example_logit_store :: "logit store" where
  "example_logit_store = map to_logits example_store"

fun real_part :: "logit \<Rightarrow> real" where
  "real_part NegInf = 0"
| "real_part (Val r) = r"

definition example_logit_dot :: "logit list \<Rightarrow> logit list \<Rightarrow> logit" where
  "example_logit_dot xs ys = Val (sum_list (map2 (\<lambda>a b. real_part a * real_part b) xs ys))"

section \<open>Properties\<close>

subsection \<open>The dictionary comprehension\<close>

text \<open>
  The comprehension over \<open>enumerate_from n xs\<close> returns a dictionary exactly when every
  index has an entry and every layer call returns; the result then holds each call's
  value under its index and is the accumulator elsewhere.
\<close>

lemma dict_comprehension_Inr:
  "dict_comprehension f inc inds (enumerate_from n xs) acc = Inr d \<longleftrightarrow>
     (\<forall>k<length xs. \<exists>s v. inc (n + int k) = Some s \<and> f (xs ! k) s inds = Inr v
          \<and> d (n + int k) = Some v) \<and>
     (\<forall>i. i < n \<or> n + int (length xs) \<le> i \<longrightarrow> d i = acc i)"
proof (induction xs arbitrary: n acc)
  case Nil
  show ?case
  proof
    assume "dict_comprehension f inc inds (enumerate_from n []) acc = Inr d"
    then show "(\<forall>k<length []. \<exists>s v. inc (n + int k) = Some s \<and> f ([] ! k) s inds = Inr v
          \<and> d (n + int k) = Some v) \<and>
     (\<forall>i. i < n \<or> n + int (length []) \<le> i \<longrightarrow> d i = acc i)" by auto
  next
    assume a: "(\<forall>k<length []. \<exists>s v. inc (n + int k) = Some s \<and> f ([] ! k) s inds = Inr v
          \<and> d (n + int k) = Some v) \<and>
     (\<forall>i. i < n \<or> n + int (length []) \<le> i \<longrightarrow> d i = acc i)"
    have "d i = acc i" for i using a by (cases "i < n") auto
    then have "acc = d" by (auto simp: fun_eq_iff)
    then show "dict_comprehension f inc inds (enumerate_from n []) acc = Inr d" by simp
  qed
next
  case (Cons x xs)
  show ?case
  proof (cases "inc n")
    case None
    then show ?thesis by (auto dest: spec[of _ 0])
  next
    case (Some s)
    show ?thesis
    proof (cases "f x s inds")
      case (Inl e)
      with Some show ?thesis by (auto dest: spec[of _ 0])
    next
      case (Inr v)
      have *: "dict_comprehension f inc inds (enumerate_from n (x # xs)) acc =
               dict_comprehension f inc inds (enumerate_from (n + 1) xs) (acc(n \<mapsto> v))"
        using Some Inr by simp
      show ?thesis unfolding * Cons.IH
        apply (rule iffI)
        subgoal
          apply (intro conjI allI impI)
          subgoal for k using Some Inr
            apply (cases k)
             apply (simp)
            apply (auto simp: algebra_simps)
            done
          subgoal for i by auto
          done
        subgoal
          apply (intro conjI allI impI)
          subgoal for k
            apply (drule conjunct1)
            apply (drule spec[of _ "Suc k"])
            apply (auto simp: algebra_simps)
            done
          subgoal for i using Some Inr
            apply (cases "i = n")
             apply (drule conjunct1)
            apply (drule spec[of _ 0])
             apply auto
            done
          done
        done
    qed
  qed
qed


lemma dict_comprehension_KeyError:
  "k < length xs \<Longrightarrow> inc (n + int k) = None \<Longrightarrow>
   (\<forall>j<k. \<exists>s v. inc (n + int j) = Some s \<and> f (xs ! j) s inds = Inr v) \<Longrightarrow>
   dict_comprehension f inc inds (enumerate_from n xs) acc = Inl (KeyError (KInt (n + int k)))"
proof (induction xs arbitrary: n acc k)
  case Nil
  then show ?case by simp
next
  case (Cons x xs)
  show ?case
  proof (cases k)
    case 0
    with Cons.prems show ?thesis by simp
  next
    case (Suc k')
    from Cons.prems(3) Suc obtain s v where sv: "inc n = Some s" "f x s inds = Inr v"
      by (auto dest: spec[of _ 0])
    have "dict_comprehension f inc inds (enumerate_from (n + 1) xs) (acc(n \<mapsto> v)) =
            Inl (KeyError (KInt (n + 1 + int k')))"
    proof (rule Cons.IH)
      show "k' < length xs" using Cons.prems(1) Suc by simp
      show "inc (n + 1 + int k') = None" using Cons.prems(2) Suc by (simp add: algebra_simps)
      show "\<forall>j<k'. \<exists>s v. inc (n + 1 + int j) = Some s \<and> f (xs ! j) s inds = Inr v"
      proof (intro allI impI)
        fix j assume "j < k'"
        then have "Suc j < k" using Suc by simp
        with Cons.prems(3) obtain s v where
          "inc (n + int (Suc j)) = Some s" "f ((x # xs) ! Suc j) s inds = Inr v" by blast
        then show "\<exists>s v. inc (n + 1 + int j) = Some s \<and> f (xs ! j) s inds = Inr v"
          by (auto simp: algebra_simps)
      qed
    qed
    then show ?thesis using sv Suc by (simp add: algebra_simps)
  qed
qed

subsection \<open>Reordering the decoder's incremental state\<close>

text \<open>
  Claim C4.  When the incremental state has an entry for every layer index (and the
  layer's own \<^verbatim>\<open>reorder_incremental_state\<close> returns on it),
  \<^verbatim>\<open>reorder_decoder_incremental_state\<close> returns a dictionary that maps each layer
  index \<open>k\<close> to the result of layer \<open>k\<close>'s own reorder operation on
  \<^verbatim>\<open>incremental_state[k]\<close> and \<^verbatim>\<open>inds\<close>.
\<close>

theorem reorder_decoder_incremental_state_delegates:
  assumes "\<forall>k<length (layers (self_decoder self)). \<exists>s v.
             incremental_state (int k) = Some s \<and>
             layer_reorder (layers (self_decoder self) ! k) s inds = Inr v"
  shows "\<exists>d. reorder_decoder_incremental_state layers layer_reorder self incremental_state inds
              = Inr d \<and>
           (\<forall>k<length (layers (self_decoder self)). \<exists>s v.
              incremental_state (int k) = Some s \<and>
              layer_reorder (layers (self_decoder self) ! k) s inds = Inr v \<and>
              d (int k) = Some v)"
proof -
  let ?L = "layers (self_decoder self)"
  define d where "d = (\<lambda>i. if 0 \<le> i \<and> i < int (length ?L)
      then (case layer_reorder (?L ! nat i) (the (incremental_state i)) inds of
              Inr v \<Rightarrow> Some v | Inl e \<Rightarrow> None)
      else None)"
  have "dict_comprehension layer_reorder incremental_state inds (enumerate_from 0 ?L) Map.empty
          = Inr d"
    unfolding dict_comprehension_Inr
  proof (intro conjI allI impI)
    fix k assume "k < length ?L"
    with assms obtain s v where "incremental_state (int k) = Some s"
      "layer_reorder (?L ! k) s inds = Inr v" by blast
    then show "\<exists>s v. incremental_state (0 + int k) = Some s \<and>
        layer_reorder (?L ! k) s inds = Inr v \<and> d (0 + int k) = Some v"
      using \<open>k < length ?L\<close> by (simp add: d_def)
  next
    fix i :: int assume "i < 0 \<or> 0 + int (length ?L) \<le> i"
    then show "d i = Map.empty i" by (auto simp: d_def)
  qed
  then have r: "reorder_decoder_incremental_state layers layer_reorder self incremental_state inds
          = Inr d"
    by (simp add: reorder_decoder_incremental_state_def)
  show ?thesis
  proof (intro exI conjI)
    show "reorder_decoder_incremental_state layers layer_reorder self incremental_state inds
          = Inr d" by (rule r)
    show "\<forall>k<length ?L. \<exists>s v. incremental_state (int k) = Some s \<and>
              layer_reorder (?L ! k) s inds = Inr v \<and> d (int k) = Some v"
      using r[unfolded reorder_decoder_incremental_state_def dict_comprehension_Inr] by simp
  qed
qed

text \<open>The claim at a decoder of two layers and a state with the keys 0, 1 and 7.\<close>

theorem reorder_decoder_incremental_state_delegates_witness:
  "\<exists>d. reorder_decoder_incremental_state (\<lambda>c. c) (\<lambda>l s i. Inr (l + s + i)) 
          \<lparr>base = (), pad_idx = 0, start_idx = 1, end_idx = 2, opt = (Map.empty :: string \<Rightarrow> nat option),
                 embeddings = 0, self_encoder = [], self_decoder = [10, 20::nat]\<rparr> 
          [0 \<mapsto> 1, 1 \<mapsto> 2, 7 \<mapsto> 3] (5::nat) = Inr d \<and>
       d 0 = Some 16 \<and> d 1 = Some 27"
proof -
  let ?self = "\<lparr>base = (), pad_idx = 0, start_idx = 1, end_idx = 2, opt = (Map.empty :: string \<Rightarrow> nat option),
                 embeddings = 0, self_encoder = [], self_decoder = [10, 20::nat]\<rparr>"
  let ?f = "\<lambda>(l::nat) (s::nat) (i::nat). (Inr (l + s + i) :: error + nat)"
  let ?inc = "[0 \<mapsto> 1, 1 \<mapsto> 2, 7 \<mapsto> (3::nat)] :: int \<Rightarrow> nat option"
  have h: "\<forall>k<length ((\<lambda>c. c) (self_decoder ?self)). \<exists>s v.
             ?inc (int k) = Some s \<and> ?f ((\<lambda>c. c) (self_decoder ?self) ! k) s 5 = Inr v"
    by (simp add: less_Suc_eq)
  from reorder_decoder_incremental_state_delegates[of "\<lambda>c. c" ?self ?inc ?f 5, OF h]
  obtain d where d: "reorder_decoder_incremental_state (\<lambda>c. c) ?f ?self ?inc 5 = Inr d"
    and k: "\<forall>k<length ((\<lambda>c. c) (self_decoder ?self)). \<exists>s v.
              ?inc (int k) = Some s \<and> ?f ((\<lambda>c. c) (self_decoder ?self) ! k) s 5 = Inr v \<and>
              d (int k) = Some v" by blast
  from k[rule_format, of 0] have "d 0 = Some 16" by simp
  moreover from k[rule_format, of 1] have "d 1 = Some 27" by simp
  ultimately show ?thesis using d by blast
qed

text \<open>
  Claim C8.  A returned dictionary has exactly the keys \<open>0, \<dots>, L - 1\<close>, whatever
  keys the input has; when the input lacks an entry for a layer index the operation
  fails and returns no partial result, and the failure is the \<open>KeyError\<close> of the
  first missing index when the calls of the layers before it return.
\<close>

theorem reorder_decoder_incremental_state_keys:
  "(\<forall>d. reorder_decoder_incremental_state layers layer_reorder self incremental_state inds
           = Inr d \<longrightarrow>
         dom d = {0 ..< int (length (layers (self_decoder self)))}) \<and>
   ((\<exists>k<length (layers (self_decoder self)). incremental_state (int k) = None) \<longrightarrow>
      (\<exists>e. reorder_decoder_incremental_state layers layer_reorder self incremental_state inds
            = Inl e)) \<and>
   (\<forall>k<length (layers (self_decoder self)).
      incremental_state (int k) = None \<and>
      (\<forall>j<k. \<exists>s v. incremental_state (int j) = Some s \<and>
                 layer_reorder (layers (self_decoder self) ! j) s inds = Inr v) \<longrightarrow>
      reorder_decoder_incremental_state layers layer_reorder self incremental_state inds
        = Inl (KeyError (KInt (int k))))"
proof (intro conjI allI impI)
  let ?L = "layers (self_decoder self)"
  fix d
  assume "reorder_decoder_incremental_state layers layer_reorder self incremental_state inds
           = Inr d"
  then have a: "\<forall>k<length ?L. \<exists>v. d (int k) = Some v"
    and b: "\<forall>i. i < 0 \<or> int (length ?L) \<le> i \<longrightarrow> d i = None"
    unfolding reorder_decoder_incremental_state_def dict_comprehension_Inr by auto
  show "dom d = {0 ..< int (length ?L)}"
  proof (rule set_eqI)
    fix i :: int
    show "i \<in> dom d \<longleftrightarrow> i \<in> {0 ..< int (length ?L)}"
    proof (cases "0 \<le> i \<and> i < int (length ?L)")
      case True
      then have "nat i < length ?L" "int (nat i) = i" by auto
      with a have "\<exists>v. d i = Some v" by metis
      with True show ?thesis by auto
    next
      case False
      with b have "d i = None" by auto
      with False show ?thesis by auto
    qed
  qed
next
  let ?L = "layers (self_decoder self)"
  assume m: "\<exists>k<length ?L. incremental_state (int k) = None"
  show "\<exists>e. reorder_decoder_incremental_state layers layer_reorder self incremental_state inds
            = Inl e"
  proof (cases "reorder_decoder_incremental_state layers layer_reorder self incremental_state inds")
    case (Inl e)
    then show ?thesis by blast
  next
    case (Inr d)
    then have "\<forall>k<length ?L. \<exists>s. incremental_state (int k) = Some s"
      unfolding reorder_decoder_incremental_state_def dict_comprehension_Inr by auto
    with m show ?thesis by auto
  qed
next
  fix k
  assume "k < length (layers (self_decoder self))"
    and "incremental_state (int k) = None \<and>
      (\<forall>j<k. \<exists>s v. incremental_state (int j) = Some s \<and>
                 layer_reorder (layers (self_decoder self) ! j) s inds = Inr v)"
  then show "reorder_decoder_incremental_state layers layer_reorder self incremental_state inds
        = Inl (KeyError (KInt (int k)))"
    using dict_comprehension_KeyError[of k "layers (self_decoder self)" incremental_state 0
        layer_reorder inds Map.empty]
    by (simp add: reorder_decoder_incremental_state_def)
qed

text \<open>
  The claim at a decoder of two layers: the key 7 of the input is dropped, and an
  input without the key 1 fails with the lookup error of that key.
\<close>

theorem reorder_decoder_incremental_state_keys_witness:
  "(\<exists>d. reorder_decoder_incremental_state (\<lambda>c. c) (\<lambda>l s i. Inr (l + s + i)) 
          \<lparr>base = (), pad_idx = 0, start_idx = 1, end_idx = 2, opt = (Map.empty :: string \<Rightarrow> nat option),
                 embeddings = 0, self_encoder = [], self_decoder = [10, 20::nat]\<rparr> 
          [0 \<mapsto> 1, 1 \<mapsto> 2, 7 \<mapsto> 3] (5::nat) = Inr d \<and> dom d = {0, 1}) \<and>
   reorder_decoder_incremental_state (\<lambda>c. c) (\<lambda>l s i. Inr (l + s + i)) 
          \<lparr>base = (), pad_idx = 0, start_idx = 1, end_idx = 2, opt = (Map.empty :: string \<Rightarrow> nat option),
                 embeddings = 0, self_encoder = [], self_decoder = [10, 20::nat]\<rparr> 
          [0 \<mapsto> 1, 7 \<mapsto> 3] (5::nat) = Inl (KeyError (KInt 1))"
proof -
  let ?self = "\<lparr>base = (), pad_idx = 0, start_idx = 1, end_idx = 2, opt = (Map.empty :: string \<Rightarrow> nat option),
                 embeddings = 0, self_encoder = [], self_decoder = [10, 20::nat]\<rparr>"
  let ?f = "\<lambda>(l::nat) (s::nat) (i::nat). (Inr (l + s + i) :: error + nat)"
  let ?inc = "[0 \<mapsto> 1, 1 \<mapsto> 2, 7 \<mapsto> (3::nat)] :: int \<Rightarrow> nat option"
  let ?inc2 = "[0 \<mapsto> 1, 7 \<mapsto> (3::nat)] :: int \<Rightarrow> nat option"
  have r: "reorder_decoder_incremental_state (\<lambda>c. c) ?f ?self ?inc 5 = Inr [0 \<mapsto> 16, 1 \<mapsto> 27]"
    by (simp add: reorder_decoder_incremental_state_def)
  have i: "{0 ..< int (length ((\<lambda>c. c) (self_decoder ?self)))} = {0, 1}" by auto
  from reorder_decoder_incremental_state_keys[of "\<lambda>c. c" ?f ?self ?inc 5] r
  have "dom [(0::int) \<mapsto> (16::nat), 1 \<mapsto> 27] = {0 ..< int (length ((\<lambda>c. c) (self_decoder ?self)))}"
    by blast
  then have 1: "dom [(0::int) \<mapsto> (16::nat), 1 \<mapsto> 27] = {0, 1}" unfolding i .
  have "(1::nat) < length ((\<lambda>c. c) (self_decoder ?self)) \<and> ?inc2 (int 1) = None \<and>
      (\<forall>j<1. \<exists>s v. ?inc2 (int j) = Some s \<and> ?f ((\<lambda>c. c) (self_decoder ?self) ! j) s 5 = Inr v)"
    by simp
  with reorder_decoder_incremental_state_keys[of "\<lambda>c. c" ?f ?self ?inc2 5]
  have 2: "reorder_decoder_incremental_state (\<lambda>c. c) ?f ?self ?inc2 5 = Inl (KeyError (KInt (int 1)))"
    by blast
  show ?thesis using r 1 2 by simp
qed

subsection \<open>The constructor\<close>

text \<open>
  What a returned model is made of: the options have an embedding size, both class
  calls returned, the embedding weight is the one new cell of the store.
\<close>

lemma init_Inr:
  assumes "TransformerGeneratorModel_init super_init create_embeddings call options dictionary mf st
             = Inr (m, st')"
  shows "\<exists>sz enc dec.
     options ''embedding_size'' = Some sz \<and>
     build_encoder call options dictionary (Some (PyRef (length st)))
        (Some (PyInt (getitem dictionary (null_token dictionary)))) (Some PyNone)
        (Some (encoder (case mf of None \<Rightarrow> Manifest_default | Some x \<Rightarrow> x))) = Inr enc \<and>
     build_decoder call options (Some (PyRef (length st)))
        (Some (decoder (case mf of None \<Rightarrow> Manifest_default | Some x \<Rightarrow> x))) = Inr dec \<and>
     m = \<lparr>base = super_init (getitem dictionary (null_token dictionary))
                    (getitem dictionary (start_token dictionary))
                    (getitem dictionary (end_token dictionary)),
          pad_idx = getitem dictionary (null_token dictionary),
          start_idx = getitem dictionary (start_token dictionary),
          end_idx = getitem dictionary (end_token dictionary),
          opt = options, embeddings = length st,
          self_encoder = enc, self_decoder = dec\<rparr> \<and>
     st' = st @ [create_embeddings dictionary sz (getitem dictionary (null_token dictionary))]"
  using assms
  by (auto simp: TransformerGeneratorModel_init_def alloc_def Let_def
           split: option.splits sum.splits)

lemma example_init_run:
  "\<exists>m st'. TransformerGeneratorModel_init (\<lambda>p s e. (p, s, e)) example_create_embeddings
       example_call example_options example_dictionary mf [] = Inr (m, st')"
  by (simp add: TransformerGeneratorModel_init_def alloc_def example_options_def
        example_call_def build_encoder_def build_decoder_def Let_def)

text \<open>
  Claim C5.  The encoder is the result of calling the class of the manifest's encoder
  specification with that specification's manifest, the decoder likewise from the
  decoder specification; without a manifest the classes are \<open>TransformerEncoder\<close> and
  \<open>TransformerDecoder\<close>, each with its default manifest.
\<close>

theorem init_constructs_components:
  assumes "TransformerGeneratorModel_init super_init create_embeddings call options dictionary
             mf st = Inr (m, st')"
  shows "(\<forall>x. mf = Some x \<longrightarrow>
            call (klass (encoder x))
              [(''opt'', PyOpt options),
               (''embedding'', PyRef (embeddings m)),
               (''vocabulary_size'', PyInt (int (len dictionary))),
               (''padding_idx'', PyInt (pad_idx m)),
               (''reduction_type'', PyNone),
               (''manifest'', PyManifest (manifest (encoder x)))] = Inr (self_encoder m) \<and>
            call (klass (decoder x))
              [(''opt'', PyOpt options),
               (''embedding'', PyRef (embeddings m)),
               (''manifest'', PyManifest (manifest (decoder x)))] = Inr (self_decoder m)) \<and>
         (mf = None \<longrightarrow>
            call TransformerEncoder
              [(''opt'', PyOpt options),
               (''embedding'', PyRef (embeddings m)),
               (''vocabulary_size'', PyInt (int (len dictionary))),
               (''padding_idx'', PyInt (pad_idx m)),
               (''reduction_type'', PyNone),
               (''manifest'', PyManifest (Default_Manifest TransformerEncoder))]
              = Inr (self_encoder m) \<and>
            call TransformerDecoder
              [(''opt'', PyOpt options),
               (''embedding'', PyRef (embeddings m)),
               (''manifest'', PyManifest (Default_Manifest TransformerDecoder))]
              = Inr (self_decoder m))"
proof -
  from init_Inr[OF assms] obtain enc dec where
    e: "build_encoder call options dictionary (Some (PyRef (length st)))
        (Some (PyInt (getitem dictionary (null_token dictionary)))) (Some PyNone)
        (Some (encoder (case mf of None \<Rightarrow> Manifest_default | Some x \<Rightarrow> x))) = Inr enc"
    and d: "build_decoder call options (Some (PyRef (length st)))
        (Some (decoder (case mf of None \<Rightarrow> Manifest_default | Some x \<Rightarrow> x))) = Inr dec"
    and m: "embeddings m = length st" "pad_idx m = getitem dictionary (null_token dictionary)"
       "self_encoder m = enc" "self_decoder m = dec"
    by auto
  show ?thesis
  proof (cases mf)
    case None
    with e d m show ?thesis
      by (simp add: build_encoder_def build_decoder_def Manifest_default_def
            ENCODER_DEFAULT_SPEC_def DECODER_DEFAULT_SPEC_def Let_def)
  next
    case (Some x)
    with e d m show ?thesis
      by (simp add: build_encoder_def build_decoder_def Let_def)
  qed
qed

text \<open>The claim at a manifest with a user-defined encoder class.\<close>

theorem init_constructs_components_witness:
  "\<exists>m st'. TransformerGeneratorModel_init (\<lambda>p s e. (p, s, e)) example_create_embeddings
       example_call example_options example_dictionary
       (Some \<lparr>encoder = \<lparr>klass = Class ''MyEncoder'', manifest = Custom_Manifest ()\<rparr>,
              decoder = DECODER_DEFAULT_SPEC\<rparr>) [] = Inr (m, st') \<and>
     fst (self_encoder m) = Class ''MyEncoder'' \<and>
     map_of (snd (self_encoder m)) ''manifest'' = Some (PyManifest (Custom_Manifest ())) \<and>
     fst (self_decoder m) = TransformerDecoder \<and>
     map_of (snd (self_decoder m)) ''manifest''
       = Some (PyManifest (Default_Manifest TransformerDecoder))"
proof -
  let ?mf = "\<lparr>encoder = \<lparr>klass = Class ''MyEncoder'', manifest = Custom_Manifest ()\<rparr>,
              decoder = DECODER_DEFAULT_SPEC\<rparr>"
  obtain m st' where run:
    "TransformerGeneratorModel_init (\<lambda>p s e. (p, s, e)) example_create_embeddings
       example_call example_options example_dictionary (Some ?mf) [] = Inr (m, st')"
    using example_init_run[of "Some ?mf"] by blast
  from init_constructs_components[OF run] have
    a: "example_call (klass (encoder ?mf))
              [(''opt'', PyOpt example_options),
               (''embedding'', PyRef (embeddings m)),
               (''vocabulary_size'', PyInt (int (len example_dictionary))),
               (''padding_idx'', PyInt (pad_idx m)),
               (''reduction_type'', PyNone),
               (''manifest'', PyManifest (manifest (encoder ?mf)))] = Inr (self_encoder m)"
    and b: "example_call (klass (decoder ?mf))
              [(''opt'', PyOpt example_options),
               (''embedding'', PyRef (embeddings m)),
               (''manifest'', PyManifest (manifest (decoder ?mf)))] = Inr (self_decoder m)"
    by blast+
  from a[symmetric] b[symmetric] have "fst (self_encoder m) = Class ''MyEncoder'' \<and>
     map_of (snd (self_encoder m)) ''manifest'' = Some (PyManifest (Custom_Manifest ())) \<and>
     fst (self_decoder m) = TransformerDecoder \<and>
     map_of (snd (self_decoder m)) ''manifest''
       = Some (PyManifest (Default_Manifest TransformerDecoder))"
    by (simp add: example_call_def DECODER_DEFAULT_SPEC_def)
  with run show ?thesis by blast
qed

text \<open>
  Claim C6.  The three special-token indices are the dictionary's entries for its
  null, start and end token; they are what the superclass constructor receives, and
  the padding index is the one given to \<^verbatim>\<open>create_embeddings\<close> and to the encoder.
\<close>

theorem init_special_token_indices:
  assumes "TransformerGeneratorModel_init super_init create_embeddings call options dictionary
             mf st = Inr (m, st')"
  shows "pad_idx m = getitem dictionary (null_token dictionary) \<and>
         start_idx m = getitem dictionary (start_token dictionary) \<and>
         end_idx m = getitem dictionary (end_token dictionary) \<and>
         base m = super_init (pad_idx m) (start_idx m) (end_idx m) \<and>
         (\<exists>sz. options ''embedding_size'' = Some sz \<and>
               lookup st' (embeddings m) = Some (create_embeddings dictionary sz (pad_idx m))) \<and>
         build_encoder call options dictionary (Some (PyRef (embeddings m)))
           (Some (PyInt (pad_idx m))) (Some PyNone)
           (Some (encoder (case mf of None \<Rightarrow> Manifest_default | Some x \<Rightarrow> x)))
           = Inr (self_encoder m) \<and>
         (\<exists>kw. call (klass (encoder (case mf of None \<Rightarrow> Manifest_default | Some x \<Rightarrow> x))) kw
                 = Inr (self_encoder m) \<and>
               map_of kw ''padding_idx'' = Some (PyInt (pad_idx m)))"
proof -
  from init_Inr[OF assms] obtain sz enc dec where
    o: "options ''embedding_size'' = Some sz"
    and e: "build_encoder call options dictionary (Some (PyRef (length st)))
        (Some (PyInt (getitem dictionary (null_token dictionary)))) (Some PyNone)
        (Some (encoder (case mf of None \<Rightarrow> Manifest_default | Some x \<Rightarrow> x))) = Inr enc"
    and m: "m = \<lparr>base = super_init (getitem dictionary (null_token dictionary))
                    (getitem dictionary (start_token dictionary))
                    (getitem dictionary (end_token dictionary)),
          pad_idx = getitem dictionary (null_token dictionary),
          start_idx = getitem dictionary (start_token dictionary),
          end_idx = getitem dictionary (end_token dictionary),
          opt = options, embeddings = length st,
          self_encoder = enc, self_decoder = dec\<rparr>"
    and s: "st' = st @ [create_embeddings dictionary sz (getitem dictionary (null_token dictionary))]"
    by blast
  have 1: "lookup st' (embeddings m)
             = Some (create_embeddings dictionary sz (pad_idx m))"
    by (simp add: m s lookup_def)
  have 2: "build_encoder call options dictionary (Some (PyRef (embeddings m)))
           (Some (PyInt (pad_idx m))) (Some PyNone)
           (Some (encoder (case mf of None \<Rightarrow> Manifest_default | Some x \<Rightarrow> x)))
           = Inr (self_encoder m)"
    using e by (simp add: m)
  have 3: "\<exists>kw. call (klass (encoder (case mf of None \<Rightarrow> Manifest_default | Some x \<Rightarrow> x))) kw
                 = Inr (self_encoder m) \<and>
               map_of kw ''padding_idx'' = Some (PyInt (pad_idx m))"
  proof -
    let ?E = "encoder (case mf of None \<Rightarrow> Manifest_default | Some x \<Rightarrow> x)"
    let ?kw = "[(''opt'', PyOpt options),
               (''embedding'', PyRef (embeddings m)),
               (''vocabulary_size'', PyInt (int (len dictionary))),
               (''padding_idx'', PyInt (pad_idx m)),
               (''reduction_type'', PyNone),
               (''manifest'', PyManifest (manifest ?E))]"
    from 2 have "call (klass ?E) ?kw = Inr (self_encoder m)"
      by (simp add: build_encoder_def Let_def)
    moreover have "map_of ?kw ''padding_idx'' = Some (PyInt (pad_idx m))" by simp
    ultimately show ?thesis by blast
  qed
  show ?thesis using o 1 2 3 by (simp add: m)
qed

text \<open>The claim at the example dictionary, whose special tokens have the indices 0, 1, 2.\<close>

theorem init_special_token_indices_witness:
  "\<exists>m st'. TransformerGeneratorModel_init (\<lambda>p s e. (p, s, e)) example_create_embeddings
       example_call example_options example_dictionary None [] = Inr (m, st') \<and>
     pad_idx m = 0 \<and> start_idx m = 1 \<and> end_idx m = 2 \<and> base m = (0, 1, 2) \<and>
     map_of (snd (self_encoder m)) ''padding_idx'' = Some (PyInt 0)"
proof -
  obtain m st' where run:
    "TransformerGeneratorModel_init (\<lambda>p s e. (p, s, e)) example_create_embeddings
       example_call example_options example_dictionary None [] = Inr (m, st')"
    using example_init_run[of None] by blast
  note t = init_special_token_indices[OF run]
  have j: "pad_idx m = 0" "start_idx m = 1" "end_idx m = 2"
    using t[THEN conjunct1] t[THEN conjunct2, THEN conjunct1]
      t[THEN conjunct2, THEN conjunct2, THEN conjunct1]
    by (simp_all add: example_dictionary_def)
  have b: "base m = (0, 1, 2)"
    using t[THEN conjunct2, THEN conjunct2, THEN conjunct2, THEN conjunct1] j by simp
  have "\<exists>kw. example_call TransformerEncoder kw = Inr (self_encoder m) \<and>
          map_of kw ''padding_idx'' = Some (PyInt (pad_idx m))"
    using t[THEN conjunct2, THEN conjunct2, THEN conjunct2, THEN conjunct2, THEN conjunct2,
            THEN conjunct2]
    by (simp add: Manifest_default_def ENCODER_DEFAULT_SPEC_def)
  then obtain kw where
    k: "example_call TransformerEncoder kw = Inr (self_encoder m)"
       "map_of kw ''padding_idx'' = Some (PyInt (pad_idx m))"
    by blast
  from k(1)[symmetric] k(2) j have "map_of (snd (self_encoder m)) ''padding_idx'' = Some (PyInt 0)"
    by (simp add: example_call_def)
  with run j b show ?thesis by blast
qed

text \<open>
  Claim C7.  Without a \<^verbatim>\<open>spec\<close> argument \<^verbatim>\<open>build_decoder\<close> calls the class of
  \<open>ENCODER_DEFAULT_SPEC\<close>, which is \<open>TransformerEncoder\<close> with the encoder's default
  manifest and differs from \<open>DECODER_DEFAULT_SPEC\<close>; the decoder default is the
  \<open>decoder\<close> field of the default manifest, which the constructor passes on.
\<close>

theorem build_decoder_default_spec:
  "build_decoder call options embedding None =
     call TransformerEncoder
       [(''opt'', PyOpt options),
        (''embedding'', (case embedding of None \<Rightarrow> PyNone | Some e \<Rightarrow> e)),
        (''manifest'', PyManifest (Default_Manifest TransformerEncoder))] \<and>
   build_decoder call options embedding None =
     build_decoder call options embedding (Some ENCODER_DEFAULT_SPEC) \<and>
   (ENCODER_DEFAULT_SPEC :: 'm ComponentSpec) \<noteq> DECODER_DEFAULT_SPEC \<and>
   decoder (Manifest_default :: 'm Manifest) = DECODER_DEFAULT_SPEC \<and>
   (\<forall>m st'. TransformerGeneratorModel_init super_init create_embeddings
               (call :: klass \<Rightarrow> ('v, 'm) kwargs \<Rightarrow> error + 'c) options dictionary None st
             = Inr (m, st') \<longrightarrow>
      build_decoder call options (Some (PyRef (embeddings m))) (Some DECODER_DEFAULT_SPEC)
        = Inr (self_decoder m) \<and>
      call TransformerDecoder
        [(''opt'', PyOpt options),
         (''embedding'', PyRef (embeddings m)),
         (''manifest'', PyManifest (Default_Manifest TransformerDecoder))]
        = Inr (self_decoder m))"
proof (intro conjI allI impI)
  show "build_decoder call options embedding None =
     call TransformerEncoder
       [(''opt'', PyOpt options),
        (''embedding'', (case embedding of None \<Rightarrow> PyNone | Some e \<Rightarrow> e)),
        (''manifest'', PyManifest (Default_Manifest TransformerEncoder))]"
    by (simp add: build_decoder_def ENCODER_DEFAULT_SPEC_def Let_def)
  show "build_decoder call options embedding None =
     build_decoder call options embedding (Some ENCODER_DEFAULT_SPEC)"
    by (simp add: build_decoder_def)
  show "(ENCODER_DEFAULT_SPEC :: 'm ComponentSpec) \<noteq> DECODER_DEFAULT_SPEC"
    by (simp add: ENCODER_DEFAULT_SPEC_def DECODER_DEFAULT_SPEC_def)
  show "decoder (Manifest_default :: 'm Manifest) = DECODER_DEFAULT_SPEC"
    by (simp add: Manifest_default_def)
next
  fix m st'
  assume a: "TransformerGeneratorModel_init super_init create_embeddings call options dictionary
               None st = Inr (m, st')"
  from init_Inr[OF a] obtain dec where
    d: "build_decoder call options (Some (PyRef (length st)))
          (Some (decoder (case None of None \<Rightarrow> Manifest_default | Some x \<Rightarrow> x))) = Inr dec"
    and m: "embeddings m = length st" "self_decoder m = dec"
    by auto
  from d m show b: "build_decoder call options (Some (PyRef (embeddings m)))
      (Some DECODER_DEFAULT_SPEC) = Inr (self_decoder m)"
    by (simp add: Manifest_default_def)
  from b show "call TransformerDecoder
        [(''opt'', PyOpt options),
         (''embedding'', PyRef (embeddings m)),
         (''manifest'', PyManifest (Default_Manifest TransformerDecoder))]
        = Inr (self_decoder m)"
    by (simp add: build_decoder_def DECODER_DEFAULT_SPEC_def Let_def)
qed

text \<open>
  The claim at the example objects: the builder alone yields an instance of the
  encoder class, the constructor without a manifest one of the decoder class.
\<close>

theorem build_decoder_default_spec_witness:
  "build_decoder example_call example_options (Some (PyRef 0)) None =
     Inr (TransformerEncoder,
          [(''opt'', PyOpt example_options), (''embedding'', PyRef 0),
           (''manifest'', PyManifest (Default_Manifest TransformerEncoder))]) \<and>
   (\<exists>m st'. TransformerGeneratorModel_init (\<lambda>p s e. (p, s, e)) example_create_embeddings
       example_call example_options example_dictionary None [] = Inr (m, st') \<and>
      self_decoder m =
        (TransformerDecoder,
         [(''opt'', PyOpt example_options), (''embedding'', PyRef (embeddings m)),
          (''manifest'', PyManifest (Default_Manifest TransformerDecoder))]))"
proof -
  note t = build_decoder_default_spec[of example_call example_options "Some (PyRef 0)"
      "\<lambda>p s e. (p, s, e)" example_create_embeddings example_dictionary "[]"]
  obtain m st' where run:
    "TransformerGeneratorModel_init (\<lambda>p s e. (p, s, e)) example_create_embeddings
       example_call example_options example_dictionary None [] = Inr (m, st')"
    using example_init_run[of None] by blast
  have 1: "build_decoder example_call example_options (Some (PyRef 0)) None =
     Inr (TransformerEncoder,
          [(''opt'', PyOpt example_options), (''embedding'', PyRef 0),
           (''manifest'', PyManifest (Default_Manifest TransformerEncoder))])"
    using t[THEN conjunct1] by (simp add: example_call_def)
  have "example_call TransformerDecoder
        [(''opt'', PyOpt example_options),
         (''embedding'', PyRef (embeddings m)),
         (''manifest'', PyManifest (Default_Manifest TransformerDecoder))]
        = Inr (self_decoder m)"
    using t[THEN conjunct2, THEN conjunct2, THEN conjunct2, THEN conjunct2] run by blast
  from this[symmetric] have 2: "self_decoder m =
        (TransformerDecoder,
         [(''opt'', PyOpt example_options), (''embedding'', PyRef (embeddings m)),
          (''manifest'', PyManifest (Default_Manifest TransformerDecoder))])"
    by (simp add: example_call_def)
  from 1 2 run show ?thesis by blast
qed

subsection \<open>Selecting rows\<close>

text \<open>
  In a concatenation of lists of one length \<open>r\<close> the \<open>i\<close>-th list is the \<open>i\<close>-th slice
  of width \<open>r\<close>; with it, slice \<open>i\<close> of \<^verbatim>\<open>index_select(t, 0, index)\<close> is slice
  \<open>index[i]\<close> of \<open>t\<close>.
\<close>

lemma take_drop_concat_uniform:
  "\<forall>xs\<in>set xss. length xs = r \<Longrightarrow> i < length xss \<Longrightarrow>
   take r (drop (i * r) (concat xss)) = xss ! i"
proof (induction xss arbitrary: i)
  case Nil
  then show ?case by simp
next
  case (Cons xs xss)
  show ?case
  proof (cases i)
    case 0
    with Cons.prems show ?thesis by simp
  next
    case (Suc j)
    with Cons.prems have "take r (drop (j * r) (concat xss)) = xss ! j"
      by (intro Cons.IH) auto
    with Cons.prems Suc show ?thesis by (simp add: add.commute)
  qed
qed

lemma length_row_slice:
  "j < n \<Longrightarrow> length xs = n * r \<Longrightarrow> length (take r (drop (j * r) xs)) = r"
proof -
  assume a: "j < n" "length xs = n * r"
  then have "Suc j * r \<le> n * r" by (intro mult_le_mono1) simp
  then have "j * r + r \<le> length xs" using a by simp
  then show ?thesis by simp
qed

lemma index_select0_Inr:
  assumes "shape t = n # rest"
  shows "index_select t 0 ix = Inr t' \<longleftrightarrow>
     ix_device ix = device t \<and> list_all (\<lambda>i. 0 \<le> i \<and> i < int n) (ix_values ix) \<and>
     t' = t\<lparr>shape := length (ix_values ix) # rest,
            elems := concat (map (\<lambda>i. take (prod_list rest)
                         (drop (nat i * prod_list rest) (elems t))) (ix_values ix))\<rparr>"
  using assms by (auto simp: index_select_def Let_def)

lemma select0_index_select:
  assumes wf: "wf_tensor t" and sh: "shape t = n # rest"
    and sel: "index_select t 0 ix = Inr t'" and i: "i < length (ix_values ix)"
  shows "0 \<le> ix_values ix ! i \<and> ix_values ix ! i < int n \<and>
         select0 t' i = select0 t (nat (ix_values ix ! i)) \<and>
         select0 t' i = Some (t\<lparr>shape := rest,
            elems := take (prod_list rest)
                       (drop (nat (ix_values ix ! i) * prod_list rest) (elems t))\<rparr>)"
proof -
  let ?r = "prod_list rest"
  let ?f = "\<lambda>i. take ?r (drop (nat i * ?r) (elems t))"
  let ?vs = "ix_values ix"
  from sel sh have rng: "list_all (\<lambda>i. 0 \<le> i \<and> i < int n) ?vs"
    and t': "t' = t\<lparr>shape := length ?vs # rest, elems := concat (map ?f ?vs)\<rparr>"
    by (simp_all add: index_select0_Inr)
  from rng i have v: "0 \<le> ?vs ! i" "?vs ! i < int n"
    by (simp_all add: list_all_length)
  then have j: "nat (?vs ! i) < n" by simp
  have len: "length (elems t) = n * ?r" using wf sh by (simp add: wf_tensor_def)
  have "\<forall>xs\<in>set (map ?f ?vs). length xs = ?r"
  proof
    fix xs assume "xs \<in> set (map ?f ?vs)"
    then obtain u where u: "u \<in> set ?vs" "xs = ?f u" by auto
    with rng have "nat u < n" by (auto simp: list_all_iff)
    with len u show "length xs = ?r" by (simp only: length_row_slice)
  qed
  then have "take ?r (drop (i * ?r) (concat (map ?f ?vs))) = map ?f ?vs ! i"
    using i by (intro take_drop_concat_uniform) simp_all
  then have e: "take ?r (drop (i * ?r) (concat (map ?f ?vs))) = ?f (?vs ! i)"
    using i by simp
  have 1: "select0 t' i = Some (t\<lparr>shape := rest, elems := ?f (?vs ! i)\<rparr>)"
    using i e by (simp add: select0_def t')
  have 2: "select0 t (nat (?vs ! i)) = Some (t\<lparr>shape := rest, elems := ?f (?vs ! i)\<rparr>)"
    using j sh by (simp add: select0_def)
  show ?thesis using v 1 2 by simp
qed


lemma reorder_encoder_states_Inr:
  "reorder_encoder_states self (enc, msk) ixs st = Inr ((enc', msk'), st') \<longleftrightarrow>
    (\<exists>e m ix e' m'. lookup st enc = Some e \<and> lookup st msk = Some m \<and>
       (case ixs of
          Tensor t \<Rightarrow> ix = t
        | PyList xs \<Rightarrow> list_all fits_int64 xs \<and> ix = \<lparr>ix_device = device e, ix_values = xs\<rparr>) \<and>
       index_select e 0 ix = Inr e' \<and> index_select m 0 ix = Inr m' \<and>
       enc' = length st \<and> msk' = Suc (length st) \<and> st' = st @ [e', m'])"
  by (auto simp: reorder_encoder_states_def alloc_def LongTensor_def to_device_def
           split: option.splits sum.splits indices.splits)


lemma index_select0_index:
  "index_select e 0 ix = Inr e' \<Longrightarrow> shape e = n # rest \<Longrightarrow>
   (case ixs of Tensor t \<Rightarrow> ix = t
    | PyList xs \<Rightarrow> list_all fits_int64 xs \<and> ix = \<lparr>ix_device = d, ix_values = xs\<rparr>) \<Longrightarrow>
   ix_values ix = index_values ixs"
  by (cases ixs) auto

text \<open>
  Claim C3.  For encoder states \<open>(enc, mask)\<close> and indices given as a tensor or as a
  list, whenever \<^verbatim>\<open>reorder_encoder_states\<close> returns, slice \<open>i\<close> along dimension 0 of
  each returned tensor is slice \<open>indices[i]\<close> of the corresponding argument; it does
  return when every index is a position of dimension 0 of both tensors and the
  tensors (and a tensor of indices) are on one device; and a list of indices behaves
  as the index tensor with the same entries on the device of \<open>enc\<close>.
\<close>

theorem reorder_encoder_states_rows:
  assumes le: "lookup st enc = Some e" and lm: "lookup st msk = Some m"
    and we: "wf_tensor e" and wm: "wf_tensor m"
    and se: "shape e = n # rest" and sm: "shape m = n' # rest'"
  shows
   "(\<forall>enc' msk' st'.
       reorder_encoder_states self (enc, msk) ixs st = Inr ((enc', msk'), st') \<longrightarrow>
       (\<exists>e' m'. lookup st' enc' = Some e' \<and> lookup st' msk' = Some m' \<and>
          shape e' = length (index_values ixs) # rest \<and>
          shape m' = length (index_values ixs) # rest' \<and>
          (\<forall>i<length (index_values ixs).
              0 \<le> index_values ixs ! i \<and>
              select0 e' i \<noteq> None \<and>
              select0 e' i = select0 e (nat (index_values ixs ! i)) \<and>
              select0 m' i \<noteq> None \<and>
              select0 m' i = select0 m (nat (index_values ixs ! i))))) \<and>
    ((\<forall>v\<in>set (index_values ixs). 0 \<le> v \<and> v < int n \<and> v < int n') \<and>
     device m = device e \<and>
     (case ixs of Tensor t \<Rightarrow> ix_device t = device e | PyList xs \<Rightarrow> list_all fits_int64 xs) \<longrightarrow>
       (\<exists>r. reorder_encoder_states self (enc, msk) ixs st = Inr r)) \<and>
    (\<forall>xs. list_all fits_int64 xs \<longrightarrow>
       reorder_encoder_states self (enc, msk) (PyList xs) st =
       reorder_encoder_states self (enc, msk) (Tensor \<lparr>ix_device = device e, ix_values = xs\<rparr>) st)"
proof (intro conjI allI impI)
  fix enc' msk' st'
  assume r: "reorder_encoder_states self (enc, msk) ixs st = Inr ((enc', msk'), st')"
  then obtain ix e' m' where
    cv: "(case ixs of Tensor t \<Rightarrow> ix = t
          | PyList xs \<Rightarrow> list_all fits_int64 xs \<and> ix = \<lparr>ix_device = device e, ix_values = xs\<rparr>)"
    and ie: "index_select e 0 ix = Inr e'" and im: "index_select m 0 ix = Inr m'"
    and ad: "enc' = length st" "msk' = Suc (length st)" "st' = st @ [e', m']"
    using le lm unfolding reorder_encoder_states_Inr by auto
  have vs: "ix_values ix = index_values ixs"
    using ie se cv by (rule index_select0_index)
  have l1: "lookup st' enc' = Some e'" and l2: "lookup st' msk' = Some m'"
    using ad by (simp_all add: lookup_def nth_append)
  have s1: "shape e' = length (index_values ixs) # rest"
    using ie se vs by (simp add: index_select0_Inr)
  have s2: "shape m' = length (index_values ixs) # rest'"
    using im sm vs by (simp add: index_select0_Inr)
  have rows: "\<forall>i<length (index_values ixs).
              0 \<le> index_values ixs ! i \<and>
              select0 e' i \<noteq> None \<and>
              select0 e' i = select0 e (nat (index_values ixs ! i)) \<and>
              select0 m' i \<noteq> None \<and>
              select0 m' i = select0 m (nat (index_values ixs ! i))"
  proof (intro allI impI)
    fix i assume "i < length (index_values ixs)"
    then have i: "i < length (ix_values ix)" using vs by simp
    from select0_index_select[OF we se ie i] select0_index_select[OF wm sm im i]
    show "0 \<le> index_values ixs ! i \<and>
              select0 e' i \<noteq> None \<and>
              select0 e' i = select0 e (nat (index_values ixs ! i)) \<and>
              select0 m' i \<noteq> None \<and>
              select0 m' i = select0 m (nat (index_values ixs ! i))"
      unfolding vs by (metis option.distinct(1))
  qed
  show "\<exists>e' m'. lookup st' enc' = Some e' \<and> lookup st' msk' = Some m' \<and>
          shape e' = length (index_values ixs) # rest \<and>
          shape m' = length (index_values ixs) # rest' \<and>
          (\<forall>i<length (index_values ixs).
              0 \<le> index_values ixs ! i \<and>
              select0 e' i \<noteq> None \<and>
              select0 e' i = select0 e (nat (index_values ixs ! i)) \<and>
              select0 m' i \<noteq> None \<and>
              select0 m' i = select0 m (nat (index_values ixs ! i)))"
    using l1 l2 s1 s2 rows by blast
next
  assume p: "(\<forall>v\<in>set (index_values ixs). 0 \<le> v \<and> v < int n \<and> v < int n') \<and>
     device m = device e \<and>
     (case ixs of Tensor t \<Rightarrow> ix_device t = device e | PyList xs \<Rightarrow> list_all fits_int64 xs)"
  define ix where "ix = (case ixs of Tensor t \<Rightarrow> t
                          | PyList xs \<Rightarrow> \<lparr>ix_device = device e, ix_values = xs\<rparr>)"
  have vs: "ix_values ix = index_values ixs" and dv: "ix_device ix = device e"
    using p by (auto simp: ix_def split: indices.splits)
  have cv: "(case ixs of Tensor t \<Rightarrow> ix = t
          | PyList xs \<Rightarrow> list_all fits_int64 xs \<and> ix = \<lparr>ix_device = device e, ix_values = xs\<rparr>)"
    using p by (auto simp: ix_def split: indices.splits)
  have re: "list_all (\<lambda>i. 0 \<le> i \<and> i < int n) (ix_values ix)"
    and rm: "list_all (\<lambda>i. 0 \<le> i \<and> i < int n') (ix_values ix)"
    using p unfolding vs by (simp_all add: list_all_iff)
  obtain e' where ie: "index_select e 0 ix = Inr e'"
    using re dv by (simp add: index_select0_Inr[OF se])
  obtain m' where im: "index_select m 0 ix = Inr m'"
    using rm dv p by (simp add: index_select0_Inr[OF sm])
  have "reorder_encoder_states self (enc, msk) ixs st
          = Inr ((length st, Suc (length st)), st @ [e', m'])"
    unfolding reorder_encoder_states_Inr using le lm cv ie im by blast
  then show "\<exists>r. reorder_encoder_states self (enc, msk) ixs st = Inr r" by blast
next
  fix xs :: "int list"
  assume "list_all fits_int64 xs"
  then show "reorder_encoder_states self (enc, msk) (PyList xs) st =
       reorder_encoder_states self (enc, msk) (Tensor \<lparr>ix_device = device e, ix_values = xs\<rparr>) st"
    using le lm by (simp add: reorder_encoder_states_def LongTensor_def to_device_def)
qed

text \<open>The claim at the example store with the indices \<open>[2, 0, 2]\<close>.\<close>

theorem reorder_encoder_states_rows_witness:
  "\<exists>enc' msk' st' e' m'.
      reorder_encoder_states example_model (1, 2) (PyList [2, 0, 2]) example_store
        = Inr ((enc', msk'), st') \<and>
      lookup st' enc' = Some e' \<and> lookup st' msk' = Some m' \<and>
      select0 e' 0 = Some \<lparr>shape = [2], dtype = Float32, device = CPU, elems = [5, 6]\<rparr> \<and>
      select0 e' 1 = Some \<lparr>shape = [2], dtype = Float32, device = CPU, elems = [1, 2]\<rparr> \<and>
      select0 m' 0 = Some \<lparr>shape = [2], dtype = BoolT, device = CPU, elems = [0, 0]\<rparr> \<and>
      select0 m' 1 = Some \<lparr>shape = [2], dtype = BoolT, device = CPU, elems = [1, 1]\<rparr>"
proof -
  let ?ixs = "PyList [2, 0, 2]"
  have h: "lookup example_store 1 = Some example_enc" "lookup example_store 2 = Some example_mask"
    "wf_tensor example_enc" "wf_tensor example_mask"
    "shape example_enc = 3 # [2]" "shape example_mask = 3 # [2]"
    by (simp_all add: lookup_def example_store_def wf_tensor_def example_enc_def example_mask_def)
  note t = reorder_encoder_states_rows[OF h, of example_model ?ixs]
  have p: "(\<forall>v\<in>set (index_values ?ixs). 0 \<le> v \<and> v < int 3 \<and> v < int 3) \<and>
     device example_mask = device example_enc \<and>
     (case ?ixs of Tensor t \<Rightarrow> ix_device t = device example_enc
      | PyList xs \<Rightarrow> list_all fits_int64 xs)"
    by (simp add: example_mask_def example_enc_def fits_int64_def)
  from t[THEN conjunct2, THEN conjunct1] p obtain enc' msk' st' where
    r: "reorder_encoder_states example_model (1, 2) ?ixs example_store = Inr ((enc', msk'), st')"
    by (metis surj_pair)
  from t[THEN conjunct1] r obtain e' m' where
    l: "lookup st' enc' = Some e'" "lookup st' msk' = Some m'"
    and rows: "\<forall>i<length (index_values ?ixs).
              0 \<le> index_values ?ixs ! i \<and>
              select0 e' i \<noteq> None \<and>
              select0 e' i = select0 example_enc (nat (index_values ?ixs ! i)) \<and>
              select0 m' i \<noteq> None \<and>
              select0 m' i = select0 example_mask (nat (index_values ?ixs ! i))"
    by blast
  from rows[rule_format, of 0] rows[rule_format, of 1]
  have "select0 e' 0 = Some \<lparr>shape = [2], dtype = Float32, device = CPU, elems = [5, 6]\<rparr>"
    "select0 e' 1 = Some \<lparr>shape = [2], dtype = Float32, device = CPU, elems = [1, 2]\<rparr>"
    "select0 m' 0 = Some \<lparr>shape = [2], dtype = BoolT, device = CPU, elems = [0, 0]\<rparr>"
    "select0 m' 1 = Some \<lparr>shape = [2], dtype = BoolT, device = CPU, elems = [1, 1]\<rparr>"
    by (simp_all add: select0_def example_enc_def example_mask_def)
  with r l show ?thesis by blast
qed

subsection \<open>The output projection\<close>

text \<open>Positions and entries of a tensor of three dimensions, and of the projection.\<close>

lemma offset3_bound: "i < b \<Longrightarrow> j < n \<Longrightarrow> l < k \<Longrightarrow> (i * n + j) * k + l < b * n * (k::nat)"
proof -
  assume a: "i < b" "j < n" "l < k"
  have "i * n + j < Suc i * n" using a by simp
  also have "\<dots> \<le> b * n" using a by (intro mult_le_mono1) simp
  finally have 1: "i * n + j < b * n" .
  have "(i * n + j) * k + l < Suc (i * n + j) * k" using a by simp
  also have "\<dots> \<le> (b * n) * k" using 1 by (intro mult_le_mono1) simp
  finally show ?thesis .
qed

lemma item3:
  "shape t = [b, n, k] \<Longrightarrow> length (elems t) = b * n * k \<Longrightarrow> i < b \<Longrightarrow> j < n \<Longrightarrow> l < k \<Longrightarrow>
   item t [i, j, l] = Some (elems t ! ((i * n + j) * k + l))"
  using offset3_bound[of i b j n l k] by (simp add: item_def)

lemma setitem3_Inr:
  assumes "shape y = [b, n, k]"
  shows "setitem3 y s c = Inr new \<longleftrightarrow>
     - int k \<le> s \<and> s < int k \<and>
     new = y\<lparr>elems := map (\<lambda>p. if p mod k = wrap_index s k then c else elems y ! p)
                          [0..<length (elems y)]\<rparr>"
  using assms by (auto simp: setitem3_def Let_def)

lemma wrap_index_less: "- int k \<le> s \<Longrightarrow> s < int k \<Longrightarrow> wrap_index s k < k"
  by (auto simp: wrap_index_def)

lemma length_chunk [simp]: "length (chunk n k xs) = n"
  by (simp add: chunk_def)

lemma nth_chunk: "r < n \<Longrightarrow> chunk n k xs ! r = take k (drop (r * k) xs)"
  by (simp add: chunk_def)

lemma length_concat_uniform:
  "\<forall>xs\<in>set xss. length xs = r \<Longrightarrow> length (concat xss) = length xss * r"
  by (induction xss) auto

lemma nth_concat_uniform:
  assumes "\<forall>xs\<in>set xss. length xs = r" and "i < length xss" and "l < r"
  shows "concat xss ! (i * r + l) = xss ! i ! l"
proof -
  have "take r (drop (i * r) (concat xss)) = xss ! i"
    using assms by (intro take_drop_concat_uniform) simp_all
  then have "xss ! i ! l = take r (drop (i * r) (concat xss)) ! l" by simp
  also have "\<dots> = drop (i * r) (concat xss) ! l" using assms by simp
  also have "\<dots> = concat xss ! (i * r + l)"
  proof -
    have "Suc i * r \<le> length xss * r" using assms by (intro mult_le_mono1) simp
    moreover have "length (concat xss) = length xss * r"
      using assms(1) by (rule length_concat_uniform)
    ultimately have "i * r + l \<le> length (concat xss)"
      using assms(3) by simp
    then show ?thesis by simp
  qed
  finally show ?thesis by simp
qed

lemma linear_3d_Inr:
  assumes "shape x = [b, n, h]" and "linear dot x w = Inr y" and "shape y = [b', n', v]"
  shows "shape w = [v, h] \<and> b' = b \<and> n' = n \<and> dtype y = dtype x \<and> device y = device x \<and>
         dtype x = dtype w \<and> device x = device w \<and>
         elems y = concat (map (\<lambda>r. map (dot r) (chunk v h (elems w))) (chunk (b * n) h (elems x)))"
  using assms
  by (auto simp: linear_def Let_def split: if_splits list.splits)


lemma output_logits_Inr:
  "output_logits neginf dot self tensor st = Inr (out, st') \<longleftrightarrow>
     (\<exists>x w y new. lookup st tensor = Some x \<and> lookup st (embeddings self) = Some w \<and>
        linear dot x w = Inr y \<and>
        setitem3 y (start_idx self) (neginf (dtype y)) = Inr new \<and>
        out = length st \<and> st' = st @ [new])"
  by (auto simp: output_logits_def alloc_def lookup_def split: option.splits sum.splits)

lemma linear_3d_cases:
  "shape x = [b, n, h] \<Longrightarrow> linear dot x w = Inr y \<Longrightarrow>
   shape y = [b, n] \<or> (\<exists>v. shape y = [b, n, v])"
  by (auto simp: linear_def Let_def split: if_splits list.splits)

lemma length_linear_3d:
  assumes "shape x = [b, n, h]" and "linear dot x w = Inr y" and "shape y = [b, n, v]"
  shows "length (elems y) = b * n * v"
proof -
  from linear_3d_Inr[OF assms] have
    e: "elems y = concat (map (\<lambda>r. map (dot r) (chunk v h (elems w))) (chunk (b * n) h (elems x)))"
    by simp
  have "\<forall>xs\<in>set (map (\<lambda>r. map (dot r) (chunk v h (elems w))) (chunk (b * n) h (elems x))).
          length xs = v" by auto
  from length_concat_uniform[OF this] show ?thesis unfolding e by simp
qed

lemma nth_linear_3d:
  assumes "shape x = [b, n, h]" and "linear dot x w = Inr y" and "shape y = [b, n, v]"
    and "i < b" and "j < n" and "l < v"
  shows "elems y ! ((i * n + j) * v + l) =
           dot (take h (drop ((i * n + j) * h) (elems x))) (take h (drop (l * h) (elems w)))"
proof -
  let ?rows = "chunk (b * n) h (elems x)"
  let ?xss = "map (\<lambda>r. map (dot r) (chunk v h (elems w))) ?rows"
  from linear_3d_Inr[OF assms(1-3)] have e: "elems y = concat ?xss" by simp
  have u: "\<forall>xs\<in>set ?xss. length xs = v" by auto
  have "i * n + j < Suc i * n" using assms by simp
  also have "\<dots> \<le> b * n" using assms by (intro mult_le_mono1) simp
  finally have r: "i * n + j < b * n" .
  then have r': "i * n + j < length ?xss" by simp
  have "concat ?xss ! ((i * n + j) * v + l) = ?xss ! (i * n + j) ! l"
    using u r' assms(6) by (rule nth_concat_uniform)
  also have "\<dots> = dot (?rows ! (i * n + j)) (chunk v h (elems w) ! l)"
    using r assms(6) by simp
  also have "\<dots> = dot (take h (drop ((i * n + j) * h) (elems x)))
                        (take h (drop (l * h) (elems w)))"
    using r assms(6) by (simp add: nth_chunk)
  finally show ?thesis unfolding e .
qed

lemma output_logits_3d:
  assumes r: "output_logits neginf dot self tensor st = Inr (out, st')"
    and lx: "lookup st tensor = Some x" and sx: "shape x = [b, n, h]"
  shows "\<exists>w y new v. lookup st (embeddings self) = Some w \<and> linear dot x w = Inr y \<and>
           shape w = [v, h] \<and> shape y = [b, n, v] \<and> length (elems y) = b * n * v \<and>
           - int v \<le> start_idx self \<and> start_idx self < int v \<and>
           new = y\<lparr>elems := map (\<lambda>p. if p mod v = wrap_index (start_idx self) v
                                  then neginf (dtype y) else elems y ! p)
                               [0..<length (elems y)]\<rparr> \<and>
           out = length st \<and> st' = st @ [new]"
proof -
  from r lx obtain w y new where
    lw: "lookup st (embeddings self) = Some w" and li: "linear dot x w = Inr y"
    and si: "setitem3 y (start_idx self) (neginf (dtype y)) = Inr new"
    and o: "out = length st" "st' = st @ [new]"
    unfolding output_logits_Inr by auto
  from linear_3d_cases[OF sx li] si obtain v where sy: "shape y = [b, n, v]"
    by (auto simp: setitem3_def)
  from linear_3d_Inr[OF sx li sy] have sw: "shape w = [v, h]" by simp
  note len = length_linear_3d[OF sx li sy]
  from si have "- int v \<le> start_idx self \<and> start_idx self < int v \<and>
     new = y\<lparr>elems := map (\<lambda>p. if p mod v = wrap_index (start_idx self) v
                                  then neginf (dtype y) else elems y ! p)
                               [0..<length (elems y)]\<rparr>"
    unfolding setitem3_Inr[OF sy] .
  with lw li sw sy len o show ?thesis by blast
qed

text \<open>
  The softmax of a vector: an entry of negative infinity has probability zero, an
  entry that is a real number a positive one, and with one such entry the
  probabilities sum to one.  Then the vector at one batch and time position.
\<close>

lemma expl_nonneg: "0 \<le> expl z"
  by (cases z) simp_all

lemma sum_list_expl_nonneg: "0 \<le> sum_list (map expl zs)"
  by (induction zs) (simp_all add: expl_nonneg)

lemma sum_list_expl_pos:
  "z \<in> set zs \<Longrightarrow> z \<noteq> NegInf \<Longrightarrow> 0 < sum_list (map expl zs)"
proof (induction zs)
  case Nil
  then show ?case by simp
next
  case (Cons a zs)
  show ?case
  proof (cases "z = a")
    case True
    with Cons.prems obtain r where "a = Val r" by (cases a) auto
    then have "0 < expl a" by simp
    with sum_list_expl_nonneg[of zs] show ?thesis by simp
  next
    case False
    with Cons have "0 < sum_list (map expl zs)" by simp
    with expl_nonneg[of a] show ?thesis by simp
  qed
qed

lemma sum_list_divide: "sum_list (map (\<lambda>z. f z / c) zs) = sum_list (map f zs) / (c::real)"
  by (induction zs) (simp_all add: add_divide_distrib)

lemma softmax_sum: "0 < sum_list (map expl zs) \<Longrightarrow> sum_list (softmax zs) = 1"
  by (simp add: softmax_def sum_list_divide)

lemma softmax_nonneg: "p \<in> set (softmax zs) \<Longrightarrow> 0 \<le> p"
  by (auto simp: softmax_def intro!: divide_nonneg_nonneg expl_nonneg sum_list_expl_nonneg)

lemma softmax_nth_NegInf: "s < length zs \<Longrightarrow> zs ! s = NegInf \<Longrightarrow> softmax zs ! s = 0"
  by (simp add: softmax_def)

lemma softmax_nth_pos: "l < length zs \<Longrightarrow> zs ! l \<noteq> NegInf \<Longrightarrow> 0 < softmax zs ! l"
proof -
  assume a: "l < length zs" "zs ! l \<noteq> NegInf"
  then have "zs ! l \<in> set zs" by simp
  from this a(2) have z: "0 < sum_list (map expl zs)" by (rule sum_list_expl_pos)
  from a(2) obtain r where "zs ! l = Val r" by (cases "zs ! l") auto
  then have "0 < expl (zs ! l)" by simp
  with z a(1) show ?thesis by (simp add: softmax_def)
qed

lemma vector_at_3d:
  assumes "shape t = [b, n, v]" and "length (elems t) = b * n * v" and "i < b" and "j < n"
  shows "length (vector_at t i j) = v"
    and "l < v \<Longrightarrow> vector_at t i j ! l = elems t ! ((i * n + j) * v + l)"
    and "l < v \<Longrightarrow> item t [i, j, l] = Some (vector_at t i j ! l)"
proof -
  have "i * n + j < Suc i * n" using assms by simp
  also have "\<dots> \<le> b * n" using assms by (intro mult_le_mono1) simp
  finally have r: "i * n + j < b * n" .
  have len: "length (elems t) = (b * n) * v" using assms by simp
  from length_row_slice[OF r len]
  show 1: "length (vector_at t i j) = v" using assms(1) by (simp add: vector_at_def)
  have "Suc (i * n + j) * v \<le> (b * n) * v" using r by (intro mult_le_mono1) simp
  then have le: "(i * n + j) * v + v \<le> length (elems t)" using len by simp
  show 2: "vector_at t i j ! l = elems t ! ((i * n + j) * v + l)" if "l < v"
    using that le assms(1) by (simp add: vector_at_def)
  show "item t [i, j, l] = Some (vector_at t i j ! l)" if "l < v"
    using item3[OF assms(1,2,3,4) that] 2[OF that] by simp
qed

text \<open>
  Claim C1.  For an input of three dimensions (batch, time, hidden), whenever
  \<^verbatim>\<open>output\<close> returns, the result has the dimensions (batch, time, vocabulary), the
  vocabulary being the rows of the embedding weight, and at every batch and time
  position the entry at the start index is negative infinity, the other entries are
  the inner products of the projection, and the softmax over the vocabulary gives the
  start token the probability zero: every token with a real logit gets a positive
  probability, and with one such token the probabilities sum to one.  The call does
  return when the embedding weight has the shape (vocabulary, hidden), dtype and
  device agree and the start index is a position of the vocabulary dimension.
\<close>

theorem output_masks_start_token:
  assumes lx: "lookup st tensor = Some x" and sx: "shape x = [b, n, h]"
  shows
    "(\<forall>out st'. output_logits parlai_neginf dot self tensor st = Inr (out, st') \<longrightarrow>
        (\<exists>y v w. lookup st' out = Some y \<and> shape y = [b, n, v] \<and>
           lookup st (embeddings self) = Some w \<and> shape w = [v, h] \<and>
           - int v \<le> start_idx self \<and> start_idx self < int v \<and>
           (\<forall>i<b. \<forall>j<n.
              item y [i, j, wrap_index (start_idx self) v] = Some NegInf \<and>
              length (vector_at y i j) = v \<and>
              (\<forall>l<v. item y [i, j, l] = Some (vector_at y i j ! l)) \<and>
              (\<forall>l<v. l \<noteq> wrap_index (start_idx self) v \<longrightarrow>
                 vector_at y i j ! l =
                   dot (take h (drop ((i * n + j) * h) (elems x)))
                       (take h (drop (l * h) (elems w)))) \<and>
              softmax (vector_at y i j) ! wrap_index (start_idx self) v = 0 \<and>
              (\<forall>l<v. vector_at y i j ! l \<noteq> NegInf \<longrightarrow>
                 0 < softmax (vector_at y i j) ! l) \<and>
              ((\<exists>l<v. vector_at y i j ! l \<noteq> NegInf) \<longrightarrow>
                 sum_list (softmax (vector_at y i j)) = 1 \<and>
                 (\<forall>p\<in>set (softmax (vector_at y i j)). 0 \<le> p))))) \<and>
     (\<forall>w v. lookup st (embeddings self) = Some w \<and> shape w = [v, h] \<and>
            dtype x = dtype w \<and> device x = device w \<and>
            - int v \<le> start_idx self \<and> start_idx self < int v \<longrightarrow>
        (\<exists>r. output_logits parlai_neginf dot self tensor st = Inr r))"
proof (intro conjI allI impI)
  fix out st'
  assume r: "output_logits parlai_neginf dot self tensor st = Inr (out, st')"
  from output_logits_3d[OF r lx sx] obtain w y new v where
    lw: "lookup st (embeddings self) = Some w" and li: "linear dot x w = Inr y"
    and sw: "shape w = [v, h]"
    and sy: "shape y = [b, n, v]" and len: "length (elems y) = b * n * v"
    and rng: "- int v \<le> start_idx self" "start_idx self < int v"
    and new: "new = y\<lparr>elems := map (\<lambda>p. if p mod v = wrap_index (start_idx self) v
                                  then parlai_neginf (dtype y) else elems y ! p)
                               [0..<length (elems y)]\<rparr>"
    and o: "out = length st" "st' = st @ [new]"
    by blast
  let ?s = "wrap_index (start_idx self) v"
  have s: "?s < v" using rng by (rule wrap_index_less)
  have l: "lookup st' out = Some new" using o by (simp add: lookup_def)
  have sn: "shape new = [b, n, v]" and ln: "length (elems new) = b * n * v"
    using sy len by (simp_all add: new)
  have rows: "item new [i, j, ?s] = Some NegInf \<and>
              length (vector_at new i j) = v \<and>
              (\<forall>l<v. item new [i, j, l] = Some (vector_at new i j ! l)) \<and>
              (\<forall>l<v. l \<noteq> ?s \<longrightarrow>
                 vector_at new i j ! l =
                   dot (take h (drop ((i * n + j) * h) (elems x)))
                       (take h (drop (l * h) (elems w)))) \<and>
              softmax (vector_at new i j) ! ?s = 0 \<and>
              (\<forall>l<v. vector_at new i j ! l \<noteq> NegInf \<longrightarrow>
                 0 < softmax (vector_at new i j) ! l) \<and>
              ((\<exists>l<v. vector_at new i j ! l \<noteq> NegInf) \<longrightarrow>
                 sum_list (softmax (vector_at new i j)) = 1 \<and>
                 (\<forall>p\<in>set (softmax (vector_at new i j)). 0 \<le> p))"
    if ij: "i < b" "j < n" for i j
  proof -
    note va = vector_at_3d[OF sn ln ij]
    have el: "elems new ! ((i * n + j) * v + l) =
                (if l = ?s then NegInf else elems y ! ((i * n + j) * v + l))"
      if "l < v" for l
    proof -
      have p: "(i * n + j) * v + l < b * n * v" using ij that by (rule offset3_bound)
      have m: "((i * n + j) * v + l) mod v = l" using that by simp
      show ?thesis using p m len by (simp add: new parlai_neginf_def)
    qed
    have vs: "vector_at new i j ! ?s = NegInf" using va(2)[OF s] el[OF s] by simp
    have 1: "item new [i, j, ?s] = Some NegInf" using va(3)[OF s] vs by simp
    have 3: "\<forall>l<v. item new [i, j, l] = Some (vector_at new i j ! l)"
      using va(3) by blast
    have 4: "\<forall>l<v. l \<noteq> ?s \<longrightarrow>
                 vector_at new i j ! l =
                   dot (take h (drop ((i * n + j) * h) (elems x)))
                       (take h (drop (l * h) (elems w)))"
    proof (intro allI impI)
      fix l assume lv: "l < v" and ne: "l \<noteq> ?s"
      have "vector_at new i j ! l = elems y ! ((i * n + j) * v + l)"
        using va(2)[OF lv] el[OF lv] ne by simp
      then show "vector_at new i j ! l =
                   dot (take h (drop ((i * n + j) * h) (elems x)))
                       (take h (drop (l * h) (elems w)))"
        using nth_linear_3d[OF sx li sy ij lv] by simp
    qed
    have 5: "softmax (vector_at new i j) ! ?s = 0"
      using s va(1) vs by (intro softmax_nth_NegInf) simp_all
    have 6: "sum_list (softmax (vector_at new i j)) = 1 \<and>
             (\<forall>p\<in>set (softmax (vector_at new i j)). 0 \<le> p)"
      if "\<exists>l<v. vector_at new i j ! l \<noteq> NegInf"
    proof -
      from that obtain l where "l < v" "vector_at new i j ! l \<noteq> NegInf" by blast
      then have m: "vector_at new i j ! l \<in> set (vector_at new i j)"
        using va(1) by simp
      from m \<open>vector_at new i j ! l \<noteq> NegInf\<close>
      have "0 < sum_list (map expl (vector_at new i j))" by (rule sum_list_expl_pos)
      then show ?thesis using softmax_sum softmax_nonneg by blast
    qed
    have 7: "\<forall>l<v. vector_at new i j ! l \<noteq> NegInf \<longrightarrow>
                 0 < softmax (vector_at new i j) ! l"
      using va(1) by (simp add: softmax_nth_pos)
    from 1 va(1) 3 4 5 6 7 show ?thesis by blast
  qed
  show "\<exists>y v w. lookup st' out = Some y \<and> shape y = [b, n, v] \<and>
           lookup st (embeddings self) = Some w \<and> shape w = [v, h] \<and>
           - int v \<le> start_idx self \<and> start_idx self < int v \<and>
           (\<forall>i<b. \<forall>j<n.
              item y [i, j, wrap_index (start_idx self) v] = Some NegInf \<and>
              length (vector_at y i j) = v \<and>
              (\<forall>l<v. item y [i, j, l] = Some (vector_at y i j ! l)) \<and>
              (\<forall>l<v. l \<noteq> wrap_index (start_idx self) v \<longrightarrow>
                 vector_at y i j ! l =
                   dot (take h (drop ((i * n + j) * h) (elems x)))
                       (take h (drop (l * h) (elems w)))) \<and>
              softmax (vector_at y i j) ! wrap_index (start_idx self) v = 0 \<and>
              (\<forall>l<v. vector_at y i j ! l \<noteq> NegInf \<longrightarrow>
                 0 < softmax (vector_at y i j) ! l) \<and>
              ((\<exists>l<v. vector_at y i j ! l \<noteq> NegInf) \<longrightarrow>
                 sum_list (softmax (vector_at y i j)) = 1 \<and>
                 (\<forall>p\<in>set (softmax (vector_at y i j)). 0 \<le> p)))"
    using l sn lw sw rng rows by (intro exI[of _ new] exI[of _ v] exI[of _ w]) simp
next
  fix w v
  assume a: "lookup st (embeddings self) = Some w \<and> shape w = [v, h] \<and>
            dtype x = dtype w \<and> device x = device w \<and>
            - int v \<le> start_idx self \<and> start_idx self < int v"
  then obtain y where li: "linear dot x w = Inr y" and sy: "shape y = [b, n, v]"
    using sx by (simp add: linear_def Let_def)
  from a obtain new where "setitem3 y (start_idx self) (parlai_neginf (dtype y)) = Inr new"
    by (simp add: setitem3_Inr[OF sy])
  with lx a li have "output_logits parlai_neginf dot self tensor st = Inr (length st, st @ [new])"
    unfolding output_logits_Inr by blast
  then show "\<exists>r. output_logits parlai_neginf dot self tensor st = Inr r" by blast
qed

text \<open>
  The claim at the example store with real logits: the decoder output at address 3,
  the start index 1.
\<close>

theorem output_masks_start_token_witness:
  "\<exists>out st' y. output_logits parlai_neginf example_logit_dot example_model 3 example_logit_store
                  = Inr (out, st') \<and>
     lookup st' out = Some y \<and>
     item y [0, 0, 1] = Some NegInf \<and> item y [0, 1, 1] = Some NegInf \<and>
     softmax (vector_at y 0 1) ! 1 = 0 \<and>
     0 < softmax (vector_at y 0 1) ! 4 \<and>
     sum_list (softmax (vector_at y 0 1)) = 1"
proof -
  have h: "lookup example_logit_store 3 = Some (to_logits example_hidden)"
    "shape (to_logits example_hidden) = [1, 2, 2]"
    by (simp_all add: lookup_def example_logit_store_def example_store_def to_logits_def
          example_hidden_def)
  note t = output_masks_start_token[OF h, of example_logit_dot example_model]
  have w: "lookup example_logit_store (embeddings example_model)
             = Some (to_logits example_weight) \<and>
           shape (to_logits example_weight) = [5, 2] \<and>
           dtype (to_logits example_hidden) = dtype (to_logits example_weight) \<and>
           device (to_logits example_hidden) = device (to_logits example_weight) \<and>
           - int 5 \<le> start_idx example_model \<and> start_idx example_model < int 5"
    by (simp add: lookup_def example_logit_store_def example_store_def example_model_def
          to_logits_def example_weight_def example_create_embeddings_def
          example_dictionary_def example_hidden_def)
  from t[THEN conjunct2, rule_format, OF w] obtain rr where
    "output_logits parlai_neginf example_logit_dot example_model 3 example_logit_store = Inr rr"
    ..
  then obtain out st' where
    r: "output_logits parlai_neginf example_logit_dot example_model 3 example_logit_store
          = Inr (out, st')"
    by (cases rr) simp
  from t[THEN conjunct1, rule_format, OF r] obtain y v w' where
    big: "lookup st' out = Some y \<and> shape y = [1, 2, v] \<and>
           lookup example_logit_store (embeddings example_model) = Some w' \<and>
           shape w' = [v, 2] \<and>
           - int v \<le> start_idx example_model \<and> start_idx example_model < int v \<and>
           (\<forall>i<1. \<forall>j<2.
              item y [i, j, wrap_index (start_idx example_model) v] = Some NegInf \<and>
              length (vector_at y i j) = v \<and>
              (\<forall>l<v. item y [i, j, l] = Some (vector_at y i j ! l)) \<and>
              (\<forall>l<v. l \<noteq> wrap_index (start_idx example_model) v \<longrightarrow>
                 vector_at y i j ! l =
                   example_logit_dot
                     (take 2 (drop ((i * 2 + j) * 2) (elems (to_logits example_hidden))))
                     (take 2 (drop (l * 2) (elems w')))) \<and>
              softmax (vector_at y i j) ! wrap_index (start_idx example_model) v = 0 \<and>
              (\<forall>l<v. vector_at y i j ! l \<noteq> NegInf \<longrightarrow>
                 0 < softmax (vector_at y i j) ! l) \<and>
              ((\<exists>l<v. vector_at y i j ! l \<noteq> NegInf) \<longrightarrow>
                 sum_list (softmax (vector_at y i j)) = 1 \<and>
                 (\<forall>p\<in>set (softmax (vector_at y i j)). 0 \<le> p)))"
    by (elim exE)
  note l = big[THEN conjunct1]
  note lw = big[THEN conjunct2, THEN conjunct2, THEN conjunct1]
  note sw = big[THEN conjunct2, THEN conjunct2, THEN conjunct2, THEN conjunct1]
  note m = big[THEN conjunct2, THEN conjunct2, THEN conjunct2, THEN conjunct2,
               THEN conjunct2, THEN conjunct2, rule_format]
  from lw w have "w' = to_logits example_weight" by simp
  with sw w have v: "v = 5" by simp
  have s: "wrap_index (start_idx example_model) v = 1"
    by (simp add: wrap_index_def example_model_def)
  have i0: "(0::nat) < 1" and j0: "(0::nat) < 2" and j1: "(1::nat) < 2" and l4: "(4::nat) < v"
    by (simp_all add: v)
  have a: "item y [0, 0, 1] = Some NegInf"
    using m[OF i0 j0, THEN conjunct1] unfolding s .
  have b: "item y [0, 1, 1] = Some NegInf"
    using m[OF i0 j1, THEN conjunct1] unfolding s .
  have c: "softmax (vector_at y 0 1) ! 1 = 0"
    using m[OF i0 j1, THEN conjunct2, THEN conjunct2, THEN conjunct2, THEN conjunct2,
            THEN conjunct1] unfolding s .
  have ne: "(4::nat) \<noteq> wrap_index (start_idx example_model) v" unfolding s by simp
  have "vector_at y 0 1 ! 4 =
          example_logit_dot
            (take 2 (drop ((0 * 2 + 1) * 2) (elems (to_logits example_hidden))))
            (take 2 (drop (4 * 2) (elems w')))"
    using m[OF i0 j1, THEN conjunct2, THEN conjunct2, THEN conjunct2, THEN conjunct1,
            rule_format, OF l4 ne] .
  then have f: "vector_at y 0 1 ! 4 \<noteq> NegInf" by (simp add: example_logit_dot_def)
  have d: "0 < softmax (vector_at y 0 1) ! 4"
    using m[OF i0 j1, THEN conjunct2, THEN conjunct2, THEN conjunct2, THEN conjunct2,
            THEN conjunct2, THEN conjunct1, rule_format, OF l4 f] .
  have "\<exists>l<v. vector_at y 0 1 ! l \<noteq> NegInf" using l4 f by blast
  then have e: "sum_list (softmax (vector_at y 0 1)) = 1"
    using m[OF i0 j1, THEN conjunct2, THEN conjunct2, THEN conjunct2, THEN conjunct2,
            THEN conjunct2, THEN conjunct2] by blast
  from r l a b c d e show ?thesis by blast
qed

text \<open>
  Away from the start column the entries are those of the projection: the inner
  products of the rows of the input with the rows of the embedding weight.
\<close>

lemma output_logits_entries:
  assumes r: "output_logits neginf dot self tensor st = Inr (out, st')"
  shows "\<exists>x w y new. lookup st tensor = Some x \<and> lookup st (embeddings self) = Some w \<and>
           linear dot x w = Inr y \<and> lookup st' out = Some new \<and> shape new = shape y \<and>
           (\<forall>b n h. shape x = [b, n, h] \<longrightarrow>
              (\<exists>v. shape w = [v, h] \<and> shape y = [b, n, v] \<and>
                 (\<forall>i<b. \<forall>j<n. \<forall>l<v. l \<noteq> wrap_index (start_idx self) v \<longrightarrow>
                    item new [i, j, l] = item y [i, j, l] \<and>
                    item new [i, j, l] =
                      Some (dot (take h (drop ((i * n + j) * h) (elems x)))
                                (take h (drop (l * h) (elems w)))))))"
proof -
  from r obtain x w y new where
    lx: "lookup st tensor = Some x" and lw: "lookup st (embeddings self) = Some w"
    and li: "linear dot x w = Inr y"
    and si: "setitem3 y (start_idx self) (neginf (dtype y)) = Inr new"
    and o: "out = length st" "st' = st @ [new]"
    unfolding output_logits_Inr by auto
  have l: "lookup st' out = Some new" using o by (simp add: lookup_def)
  have sh: "shape new = shape y"
    using si by (auto simp: setitem3_def Let_def split: list.splits if_splits)
  have "\<exists>v. shape w = [v, h] \<and> shape y = [b, n, v] \<and>
          (\<forall>i<b. \<forall>j<n. \<forall>l<v. l \<noteq> wrap_index (start_idx self) v \<longrightarrow>
             item new [i, j, l] = item y [i, j, l] \<and>
             item new [i, j, l] =
               Some (dot (take h (drop ((i * n + j) * h) (elems x)))
                         (take h (drop (l * h) (elems w)))))"
    if sx: "shape x = [b, n, h]" for b n h
  proof -
    from output_logits_3d[OF r lx sx] lw li obtain v where
      sw: "shape w = [v, h]" and sy: "shape y = [b, n, v]"
      and len: "length (elems y) = b * n * v"
      and rng: "- int v \<le> start_idx self" "start_idx self < int v"
      by auto
    from si have new: "new = y\<lparr>elems := map (\<lambda>p. if p mod v = wrap_index (start_idx self) v
                                  then neginf (dtype y) else elems y ! p)
                               [0..<length (elems y)]\<rparr>"
      unfolding setitem3_Inr[OF sy] by simp
    have sn: "shape new = [b, n, v]" and ln: "length (elems new) = b * n * v"
      using sy len by (simp_all add: new)
    have "item new [i, j, l] = item y [i, j, l] \<and>
          item new [i, j, l] =
            Some (dot (take h (drop ((i * n + j) * h) (elems x)))
                      (take h (drop (l * h) (elems w))))"
      if ij: "i < b" "j < n" "l < v" and ne: "l \<noteq> wrap_index (start_idx self) v" for i j l
    proof -
      let ?p = "(i * n + j) * v + l"
      have p: "?p < b * n * v" using ij by (rule offset3_bound)
      have m: "?p mod v = l" using ij by simp
      have "elems new ! ?p = elems y ! ?p" using p m ne len by (simp add: new)
      then have 1: "item new [i, j, l] = item y [i, j, l]"
        using item3[OF sn ln ij] item3[OF sy len ij] by simp
      have 2: "item y [i, j, l] =
            Some (dot (take h (drop ((i * n + j) * h) (elems x)))
                      (take h (drop (l * h) (elems w))))"
        using item3[OF sy len ij] nth_linear_3d[OF sx li sy ij] by simp
      from 1 2 show ?thesis by simp
    qed
    with sw sy show ?thesis by blast
  qed
  with lx lw li l sh show ?thesis by blast
qed

text \<open>
  Claim C2.  The constructor creates one tensor, the embedding weight, and passes its
  address as the \<^verbatim>\<open>embedding\<close> keyword to the encoder's and to the decoder's class
  call; \<^verbatim>\<open>output\<close> projects with the tensor at that same address.
\<close>

theorem output_shares_embedding_weight:
  assumes "TransformerGeneratorModel_init super_init create_embeddings call options dictionary
             mf st0 = Inr (m, st1)"
  shows
    "embeddings m = length st0 \<and>
     (\<exists>sz. options ''embedding_size'' = Some sz \<and>
           st1 = st0 @ [create_embeddings dictionary sz (pad_idx m)]) \<and>
     (\<exists>kw. call (klass (encoder (case mf of None \<Rightarrow> Manifest_default | Some x \<Rightarrow> x))) kw
              = Inr (self_encoder m) \<and>
           map_of kw ''embedding'' = Some (PyRef (embeddings m))) \<and>
     (\<exists>kw. call (klass (decoder (case mf of None \<Rightarrow> Manifest_default | Some x \<Rightarrow> x))) kw
              = Inr (self_decoder m) \<and>
           map_of kw ''embedding'' = Some (PyRef (embeddings m))) \<and>
     (\<forall>neginf dot tensor st out st'.
        output_logits neginf dot m tensor st = Inr (out, st') \<longrightarrow>
        (\<exists>x w y new. lookup st tensor = Some x \<and> lookup st (embeddings m) = Some w \<and>
           linear dot x w = Inr y \<and> lookup st' out = Some new \<and> shape new = shape y \<and>
           (\<forall>b n h. shape x = [b, n, h] \<longrightarrow>
              (\<exists>v. shape w = [v, h] \<and> shape y = [b, n, v] \<and>
                 (\<forall>i<b. \<forall>j<n. \<forall>l<v. l \<noteq> wrap_index (start_idx m) v \<longrightarrow>
                    item new [i, j, l] = item y [i, j, l] \<and>
                    item new [i, j, l] =
                      Some (dot (take h (drop ((i * n + j) * h) (elems x)))
                                (take h (drop (l * h) (elems w)))))))))"
proof -
  let ?mf = "case mf of None \<Rightarrow> Manifest_default | Some x \<Rightarrow> x"
  from init_Inr[OF assms] obtain sz enc dec where
    o: "options ''embedding_size'' = Some sz"
    and e: "build_encoder call options dictionary (Some (PyRef (length st0)))
        (Some (PyInt (getitem dictionary (null_token dictionary)))) (Some PyNone)
        (Some (encoder ?mf)) = Inr enc"
    and d: "build_decoder call options (Some (PyRef (length st0))) (Some (decoder ?mf)) = Inr dec"
    and m: "embeddings m = length st0" "pad_idx m = getitem dictionary (null_token dictionary)"
       "self_encoder m = enc" "self_decoder m = dec"
    and s: "st1 = st0 @ [create_embeddings dictionary sz
                           (getitem dictionary (null_token dictionary))]"
    by auto
  have 1: "\<exists>sz. options ''embedding_size'' = Some sz \<and>
           st1 = st0 @ [create_embeddings dictionary sz (pad_idx m)]"
    using o s m by simp
  let ?kwe = "[(''opt'', PyOpt options),
               (''embedding'', PyRef (embeddings m)),
               (''vocabulary_size'', PyInt (int (len dictionary))),
               (''padding_idx'', PyInt (pad_idx m)),
               (''reduction_type'', PyNone),
               (''manifest'', PyManifest (manifest (encoder ?mf)))]"
  let ?kwd = "[(''opt'', PyOpt options),
               (''embedding'', PyRef (embeddings m)),
               (''manifest'', PyManifest (manifest (decoder ?mf)))]"
  have "call (klass (encoder ?mf)) ?kwe = Inr (self_encoder m)"
    using e m by (simp add: build_encoder_def Let_def)
  moreover have "map_of ?kwe ''embedding'' = Some (PyRef (embeddings m))" by simp
  ultimately have 2: "\<exists>kw. call (klass (encoder ?mf)) kw = Inr (self_encoder m) \<and>
           map_of kw ''embedding'' = Some (PyRef (embeddings m))" by blast
  have "call (klass (decoder ?mf)) ?kwd = Inr (self_decoder m)"
    using d m by (simp add: build_decoder_def Let_def)
  moreover have "map_of ?kwd ''embedding'' = Some (PyRef (embeddings m))" by simp
  ultimately have 3: "\<exists>kw. call (klass (decoder ?mf)) kw = Inr (self_decoder m) \<and>
           map_of kw ''embedding'' = Some (PyRef (embeddings m))" by blast
  show ?thesis
    using m(1) 1 2 3 output_logits_entries[where self = m]
    by (intro conjI allI impI) assumption+
qed

text \<open>
  The claim at the example objects: the constructor's only new cell is the weight,
  both components hold its address, and the logit of the last token at the second
  time step is the inner product of \<open>[3, 4]\<close> with the weight's last row \<open>[8, 9]\<close>.
\<close>

lemma output_logits_cong:
  "embeddings m = embeddings m' \<Longrightarrow> start_idx m = start_idx m' \<Longrightarrow>
   output_logits neginf dot m tensor st = output_logits neginf dot m' tensor st"
  by (simp add: output_logits_def cong: option.case_cong sum.case_cong)

lemma example_output_run2:
  "output_logits example_neginf example_dot example_model 1 [example_weight, example_hidden] =
     Inr (2, [example_weight, example_hidden,
              \<lparr>shape = [1, 2, 5], dtype = Float32, device = CPU,
               elems = [0, - 1000, 14, 20, 26, 0, - 1000, 32, 46, 60]\<rparr>])"
  by code_simp

theorem output_shares_embedding_weight_witness:
  "\<exists>m st1 out st' new.
     TransformerGeneratorModel_init (\<lambda>p s e. (p, s, e)) example_create_embeddings
       example_call example_options example_dictionary None [] = Inr (m, st1) \<and>
     st1 = [example_weight] \<and>
     map_of (snd (self_encoder m)) ''embedding'' = Some (PyRef 0) \<and>
     map_of (snd (self_decoder m)) ''embedding'' = Some (PyRef 0) \<and>
     output_logits example_neginf example_dot m 1 (st1 @ [example_hidden]) = Inr (out, st') \<and>
     lookup st' out = Some new \<and>
     item new [0, 1, 4] = Some 60"
proof -
  obtain m st1 where run:
    "TransformerGeneratorModel_init (\<lambda>p s e. (p, s, e)) example_create_embeddings
       example_call example_options example_dictionary None [] = Inr (m, st1)"
    using example_init_run[of None] by blast
  note t = output_shares_embedding_weight[OF run]
  from init_Inr[OF run] have f: "start_idx m = 1" "pad_idx m = 0"
    by (auto simp: example_dictionary_def)
  have e: "embeddings m = 0" using t[THEN conjunct1] by simp
  have s: "st1 = [example_weight]"
    using t[THEN conjunct2, THEN conjunct1] f
    by (simp add: example_options_def example_weight_def)
  from t[THEN conjunct2, THEN conjunct2, THEN conjunct1] obtain kwe where
    ce: "example_call (klass (encoder (Manifest_default :: unit Manifest))) kwe
           = Inr (self_encoder m)"
    "map_of kwe ''embedding'' = Some (PyRef (embeddings m))"
    by auto
  from ce(1)[symmetric] ce(2) e
  have ke: "map_of (snd (self_encoder m)) ''embedding'' = Some (PyRef 0)"
    by (simp add: example_call_def)
  from t[THEN conjunct2, THEN conjunct2, THEN conjunct2, THEN conjunct1] obtain kwd where
    cd: "example_call (klass (decoder (Manifest_default :: unit Manifest))) kwd
           = Inr (self_decoder m)"
    "map_of kwd ''embedding'' = Some (PyRef (embeddings m))"
    by auto
  from cd(1)[symmetric] cd(2) e
  have kd: "map_of (snd (self_decoder m)) ''embedding'' = Some (PyRef 0)"
    by (simp add: example_call_def)
  let ?st = "[example_weight, example_hidden]"
  let ?out = "\<lparr>shape = [1, 2, 5], dtype = Float32, device = CPU,
               elems = [0, - 1000, 14, 20, 26, 0, - 1000, 32, 46, (60::int)]\<rparr>"
  have c: "output_logits example_neginf example_dot m 1 ?st =
        output_logits example_neginf example_dot example_model 1 ?st"
    using e f by (intro output_logits_cong) (simp_all add: example_model_def)
  have r: "output_logits example_neginf example_dot m 1 ?st = Inr (2, ?st @ [?out])"
    unfolding c example_output_run2 by simp
  from t[THEN conjunct2, THEN conjunct2, THEN conjunct2, THEN conjunct2, rule_format, OF r]
  obtain x w y new where
    lx: "lookup ?st 1 = Some x" and lw: "lookup ?st (embeddings m) = Some w"
    and ln: "lookup (?st @ [?out]) 2 = Some new"
    and en: "\<forall>b n h. shape x = [b, n, h] \<longrightarrow>
              (\<exists>v. shape w = [v, h] \<and> shape y = [b, n, v] \<and>
                 (\<forall>i<b. \<forall>j<n. \<forall>l<v. l \<noteq> wrap_index (start_idx m) v \<longrightarrow>
                    item new [i, j, l] = item y [i, j, l] \<and>
                    item new [i, j, l] =
                      Some (example_dot (take h (drop ((i * n + j) * h) (elems x)))
                                (take h (drop (l * h) (elems w))))))"
    by blast
  from lx have x: "x = example_hidden" by (simp add: lookup_def)
  from lw e have w: "w = example_weight" by (simp add: lookup_def)
  have sx: "shape x = [1, 2, 2]" by (simp add: x example_hidden_def)
  have sw: "shape w = [5, 2]"
    by (simp add: w example_weight_def example_create_embeddings_def example_dictionary_def)
  from en[rule_format, OF sx] obtain v where
    sv: "shape w = [v, 2]"
    and en': "\<forall>i<1. \<forall>j<2. \<forall>l<v. l \<noteq> wrap_index (start_idx m) v \<longrightarrow>
            item new [i, j, l] = item y [i, j, l] \<and>
            item new [i, j, l] =
              Some (example_dot (take 2 (drop ((i * 2 + j) * 2) (elems x)))
                                (take 2 (drop (l * 2) (elems w))))"
    by blast
  from sv sw have v: "v = 5" by simp
  have wi: "(4::nat) \<noteq> wrap_index (start_idx m) v" by (simp add: wrap_index_def f)
  have ev: "example_dot (take 2 (drop ((0 * 2 + 1) * 2) (elems example_hidden)))
                        (take 2 (drop (4 * 2) (elems example_weight))) = 60"
    by code_simp
  have "item new [0, 1, 4] =
          Some (example_dot (take 2 (drop ((0 * 2 + 1) * 2) (elems x)))
                            (take 2 (drop (4 * 2) (elems w))))"
    using en'[rule_format, of 0 1 4, THEN conjunct2] wi v by simp
  then have i: "item new [0, 1, 4] = Some 60"
    unfolding x w ev .
  from i run s ke kd r ln show ?thesis by (intro exI[of _ m] exI[of _ st1] exI[of _ 2]
        exI[of _ "?st @ [?out]"] exI[of _ new]) simp
qed

subsection \<open>The arguments stay as they are\<close>

text \<open>
  Claim C9.  \<^verbatim>\<open>reorder_encoder_states\<close> returns the addresses of two new tensors and
  \<^verbatim>\<open>output\<close> the address of one new tensor; every cell of the store before the call,
  so the argument tensors and the embedding weight, holds the same tensor after it:
  the assignment of \<^verbatim>\<open>output\<close> changes the new cell only.
\<close>

theorem reorder_and_output_leave_arguments_unchanged:
  "(\<forall>enc' msk' st'.
      reorder_encoder_states self (enc, msk) ixs st = Inr ((enc', msk'), st') \<longrightarrow>
      enc' = length st \<and> msk' = Suc (length st) \<and> length st' = length st + 2 \<and>
      take (length st) st' = st \<and> enc < length st \<and> msk < length st \<and>
      lookup st' enc = lookup st enc \<and> lookup st' msk = lookup st msk \<and>
      (\<forall>a<length st. lookup st' a = lookup st a)) \<and>
   (\<forall>out st'.
      output_logits neginf dot self tensor st = Inr (out, st') \<longrightarrow>
      out = length st \<and> length st' = Suc (length st) \<and>
      take (length st) st' = st \<and> tensor < length st \<and> embeddings self < length st \<and>
      lookup st' tensor = lookup st tensor \<and>
      lookup st' (embeddings self) = lookup st (embeddings self) \<and>
      (\<forall>a<length st. lookup st' a = lookup st a))"
proof (intro conjI allI impI)
  fix enc' msk' st'
  assume "reorder_encoder_states self (enc, msk) ixs st = Inr ((enc', msk'), st')"
  then obtain e m e' m' where
    l: "lookup st enc = Some e" "lookup st msk = Some m"
    and a: "enc' = length st" "msk' = Suc (length st)" "st' = st @ [e', m']"
    unfolding reorder_encoder_states_Inr by blast
  from l have b: "enc < length st" "msk < length st"
    by (simp_all add: lookup_def split: if_splits)
  show "enc' = length st" "msk' = Suc (length st)" by (rule a)+
  show "length st' = length st + 2" "take (length st) st' = st" using a by simp_all
  show "enc < length st" "msk < length st" by (rule b)+
  show "lookup st' enc = lookup st enc" "lookup st' msk = lookup st msk"
    using a b by (simp_all add: lookup_def nth_append)
  show "lookup st' x = lookup st x" if "x < length st" for x
    using a that by (simp add: lookup_def nth_append)
next
  fix out st'
  assume "output_logits neginf dot self tensor st = Inr (out, st')"
  then obtain x w new where
    l: "lookup st tensor = Some x" "lookup st (embeddings self) = Some w"
    and a: "out = length st" "st' = st @ [new]"
    unfolding output_logits_Inr by blast
  from l have b: "tensor < length st" "embeddings self < length st"
    by (simp_all add: lookup_def split: if_splits)
  show "out = length st" by (rule a)
  show "length st' = Suc (length st)" "take (length st) st' = st" using a by simp_all
  show "tensor < length st" "embeddings self < length st" by (rule b)+
  show "lookup st' tensor = lookup st tensor"
    "lookup st' (embeddings self) = lookup st (embeddings self)"
    using a b by (simp_all add: lookup_def nth_append)
  show "lookup st' x = lookup st x" if "x < length st" for x
    using a that by (simp add: lookup_def nth_append)
qed

text \<open>The two calls on the example store, evaluated, and the claim at them.\<close>

lemma example_output_run:
  "output_logits example_neginf example_dot example_model 3 example_store =
     Inr (4, example_store @
             [\<lparr>shape = [1, 2, 5], dtype = Float32, device = CPU,
               elems = [0, - 1000, 14, 20, 26, 0, - 1000, 32, 46, 60]\<rparr>])"
  by code_simp

lemma example_reorder_run:
  "reorder_encoder_states example_model (1, 2) (PyList [2, 0, 2]) example_store =
     Inr ((4, 5), example_store @
            [\<lparr>shape = [3, 2], dtype = Float32, device = CPU, elems = [5, 6, 1, 2, 5, 6]\<rparr>,
             \<lparr>shape = [3, 2], dtype = BoolT, device = CPU, elems = [0, 0, 1, 1, 0, 0]\<rparr>])"
  by code_simp

theorem reorder_and_output_leave_arguments_unchanged_witness:
  "(\<exists>r st'. reorder_encoder_states example_model (1, 2) (PyList [2, 0, 2]) example_store
               = Inr (r, st') \<and>
      lookup st' 1 = Some example_enc \<and> lookup st' 2 = Some example_mask) \<and>
   (\<exists>out st'. output_logits example_neginf example_dot example_model 3 example_store
               = Inr (out, st') \<and>
      lookup st' 3 = Some example_hidden \<and> lookup st' 0 = Some example_weight \<and>
      out = 4)"
proof -
  note t = reorder_and_output_leave_arguments_unchanged[of example_model 1 2 "PyList [2, 0, 2]"
      example_store example_neginf example_dot 3]
  have e: "lookup example_store 0 = Some example_weight" "lookup example_store 1 = Some example_enc"
    "lookup example_store 2 = Some example_mask" "lookup example_store 3 = Some example_hidden"
    "embeddings example_model = 0" "length example_store = 4"
    by (simp_all add: lookup_def example_store_def example_model_def)
  from t[THEN conjunct1] example_reorder_run e have 1:
    "\<exists>r st'. reorder_encoder_states example_model (1, 2) (PyList [2, 0, 2]) example_store
               = Inr (r, st') \<and>
      lookup st' 1 = Some example_enc \<and> lookup st' 2 = Some example_mask"
    by metis
  from t[THEN conjunct2] example_output_run e have 2:
    "\<exists>out st'. output_logits example_neginf example_dot example_model 3 example_store
               = Inr (out, st') \<and>
      lookup st' 3 = Some example_hidden \<and> lookup st' 0 = Some example_weight \<and>
      out = 4"
    by metis
  from 1 2 show ?thesis by blast
qed

end
